theory Spec2Isabelle
  imports Main "HOL-Library.Multiset"
begin

section \<open>Data model (src/src/App.tsx, lines 5-17)\<close>

text \<open>
  \<^verbatim>\<open>type TabSummary = { id: number, title: string, url: string, selected: boolean }\<close>
  \<^verbatim>\<open>type GroupSuggestion = { host: string, tabs: TabSummary[], groupSelected: boolean,
                                customName?: string }\<close>
  The field \<open>id\<close> is written \<open>tab_id\<close>, since \<open>id\<close> is HOL's identity function.
  Every group object owns its tab array: the builders below create a new array for
  every key and a new object for every tab, so a value model (no aliasing between
  groups) describes the states the program builds.
\<close>

record TabSummary =
  tab_id :: int
  title :: string
  url :: string
  selected :: bool

record GroupSuggestion =
  host :: string
  tabs :: "TabSummary list"
  groupSelected :: bool
  customName :: "string option"

datatype error = TypeError | NotFound | InvalidArgument

section \<open>Selection model (App.tsx, lines 118-173)\<close>

text \<open>
  \<open>toggleGroup\<close> (lines 118-132). \<open>updated[groupIndex]\<close> is \<open>undefined\<close> when the
  index is out of range, and the assignment to \<open>group.groupSelected\<close> then throws a
  TypeError. Otherwise the flag is negated and every tab of the group is overwritten
  with the new flag.
\<close>

definition toggleGroup :: "nat \<Rightarrow> GroupSuggestion list \<Rightarrow> error + GroupSuggestion list" where
  "toggleGroup groupIndex prevGroups =
     (if groupIndex < length prevGroups then
        let group = prevGroups ! groupIndex;
            flag = \<not> groupSelected group
        in Inr (prevGroups[groupIndex :=
                  group\<lparr>groupSelected := flag,
                        tabs := map (\<lambda>tab. tab\<lparr>selected := flag\<rparr>) (tabs group)\<rparr>])
      else Inl TypeError)"

text \<open>
  \<open>toggleTab\<close> (lines 138-152). Either index out of range ends in a TypeError
  (\<open>group.tabs\<close> of \<open>undefined\<close>, or \<open>tab.selected\<close> of \<open>undefined\<close>). Otherwise
  the tab's flag is negated and \<open>groupSelected\<close> is recomputed with
  \<open>Array.prototype.every\<close>, which is \<open>true\<close> on the empty array, as \<open>list_all\<close> is.
\<close>

definition toggleTab :: "nat \<Rightarrow> nat \<Rightarrow> GroupSuggestion list \<Rightarrow> error + GroupSuggestion list" where
  "toggleTab groupIndex tabIndex prevGroups =
     (if groupIndex < length prevGroups then
        let group = prevGroups ! groupIndex in
        if tabIndex < length (tabs group) then
          let tab = tabs group ! tabIndex;
              tabs' = (tabs group)[tabIndex := tab\<lparr>selected := \<not> selected tab\<rparr>]
          in Inr (prevGroups[groupIndex :=
                    group\<lparr>tabs := tabs', groupSelected := list_all selected tabs'\<rparr>])
        else Inl TypeError
      else Inl TypeError)"

text \<open>\<open>hasSelectedTabs\<close> (lines 158-162) and \<open>updateGroupName\<close> (lines 167-173).\<close>

definition hasSelectedTabs :: "GroupSuggestion list \<Rightarrow> bool" where
  "hasSelectedTabs groups = list_ex (\<lambda>group. list_ex selected (tabs group)) groups"

definition updateGroupName :: "nat \<Rightarrow> string \<Rightarrow> GroupSuggestion list \<Rightarrow> error + GroupSuggestion list" where
  "updateGroupName groupIndex newName prevGroups =
     (if groupIndex < length prevGroups then
        Inr (prevGroups[groupIndex := (prevGroups ! groupIndex)\<lparr>customName := Some newName\<rparr>])
      else Inl TypeError)"

text \<open>
  The invariant of the data model: the group flag is the conjunction of the flags of
  the group's tabs.
\<close>

definition group_inv :: "GroupSuggestion \<Rightarrow> bool" where
  "group_inv g = (groupSelected g = list_all selected (tabs g))"

text \<open>Two calls of \<open>toggleGroup\<close> in a row.\<close>

definition toggleGroup2 :: "nat \<Rightarrow> GroupSuggestion list \<Rightarrow> error + GroupSuggestion list" where
  "toggleGroup2 groupIndex gs =
     (case toggleGroup groupIndex gs of Inl e \<Rightarrow> Inl e | Inr gs1 \<Rightarrow> toggleGroup groupIndex gs1)"

section \<open>Key extraction (App.tsx, lines 23-30)\<close>

text \<open>
  \<open>getHostname\<close> calls the platform's URL parser (\<open>new URL(url)\<close>), which is not
  part of the repository. It is a parameter of the model: a partial function from an
  address to the \<open>hostname\<close> of the parsed URL, with \<open>None\<close> where the constructor
  throws. The regular expression \<open>/^www\./\<close> without the global flag matches the four
  characters \<open>www.\<close> at the start only, and \<open>replace\<close> removes that one match.
\<close>

type_synonym url_parser = "string \<Rightarrow> string option"

definition startsWith :: "string \<Rightarrow> string \<Rightarrow> bool" where
  "startsWith s p = (take (length p) s = p)"

definition replace_www :: "string \<Rightarrow> string" where
  "replace_www hostname = (if startsWith hostname ''www.'' then drop 4 hostname else hostname)"

definition getHostname :: "url_parser \<Rightarrow> string \<Rightarrow> string" where
  "getHostname parseURL address =
     (case parseURL address of
        Some hostname \<Rightarrow> replace_www hostname
      | None \<Rightarrow> ''unknown'')"

section \<open>Tabs as the browser reports them\<close>

text \<open>
  A \<open>chrome.tabs.Tab\<close>, reduced to the fields the program reads. \<open>id\<close>, \<open>url\<close> and
  \<open>title\<close> are optional in the browser's type; \<open>groupId\<close> is \<open>-1\<close> for a tab that
  is in no group.
\<close>

record ChromeTab =
  ctab_id :: "int option"
  ctab_url :: "string option"
  ctab_title :: "string option"
  groupId :: int

text \<open>
  The filter of lines 56-61 and 256-261: \<open>tab.url\<close> is truthy (defined and not
  empty) and starts with neither \<open>chrome://\<close> nor \<open>chrome-extension://\<close>.
\<close>

definition filterTabs :: "ChromeTab list \<Rightarrow> ChromeTab list" where
  "filterTabs queried =
     filter (\<lambda>tab. case ctab_url tab of
                      None \<Rightarrow> False
                    | Some u \<Rightarrow> u \<noteq> [] \<and> \<not> startsWith u ''chrome://''
                                \<and> \<not> startsWith u ''chrome-extension://'') queried"

text \<open>
  The guard \<open>tab.id && tab.url && tab.title\<close> (lines 76 and 269) with the object
  literal built under it (lines 78-83, 287-292, 299-304): a tab without an id, with
  id \<open>0\<close>, or with a missing or empty url or title yields no \<open>TabSummary\<close>; every
  other tab yields one with \<open>selected: true\<close>.
\<close>

definition tabSummary :: "ChromeTab \<Rightarrow> TabSummary option" where
  "tabSummary tab =
     (case ctab_id tab of None \<Rightarrow> None | Some i \<Rightarrow>
      (case ctab_url tab of None \<Rightarrow> None | Some u \<Rightarrow>
       (case ctab_title tab of None \<Rightarrow> None | Some t \<Rightarrow>
          if i \<noteq> 0 \<and> u \<noteq> [] \<and> t \<noteq> []
          then Some \<lparr>tab_id = i, title = t, url = u, selected = True\<rparr>
          else None)))"

section \<open>The JavaScript \<open>Map\<close>\<close>

text \<open>
  A \<open>Map\<close> iterates in insertion order, so it is an association list: \<open>has\<close> looks
  the key up, \<open>set\<close> replaces the value of a present key in place and appends an
  absent one, and \<open>map.get(k)!.push(x)\<close> extends the array stored under \<open>k\<close>.
\<close>

definition Map_has :: "'k \<Rightarrow> ('k \<times> 'v) list \<Rightarrow> bool" where
  "Map_has k m = (k \<in> set (map fst m))"

definition Map_set :: "'k \<Rightarrow> 'v \<Rightarrow> ('k \<times> 'v) list \<Rightarrow> ('k \<times> 'v) list" where
  "Map_set k v m =
     (if Map_has k m then map (\<lambda>(k', v'). if k' = k then (k', v) else (k', v')) m
      else m @ [(k, v)])"

definition Map_get_push :: "'k \<Rightarrow> 'a \<Rightarrow> ('k \<times> 'a list) list \<Rightarrow> ('k \<times> 'a list) list" where
  "Map_get_push k x m = map (\<lambda>(k', xs). if k' = k then (k', xs @ [x]) else (k', xs)) m"

section \<open>Fresh build (App.tsx, lines 56-100)\<close>

text \<open>
  The body of the \<open>forEach\<close> of lines 75-90, and of the \<open>else\<close> branch of lines
  295-304: the key is created with an empty array when it is new, then the tab is
  pushed.
\<close>

definition hostMap_add :: "url_parser \<Rightarrow> TabSummary \<Rightarrow> (string \<times> TabSummary list) list
    \<Rightarrow> (string \<times> TabSummary list) list" where
  "hostMap_add parseURL tab hostMap =
     (let h = getHostname parseURL (url tab);
          hostMap1 = (if \<not> Map_has h hostMap then Map_set h [] hostMap else hostMap)
      in Map_get_push h tab hostMap1)"

definition groupByHost :: "url_parser \<Rightarrow> (string \<times> TabSummary list) list \<Rightarrow> ChromeTab
    \<Rightarrow> (string \<times> TabSummary list) list" where
  "groupByHost parseURL hostMap tab =
     (case tabSummary tab of
        Some summary \<Rightarrow> hostMap_add parseURL summary hostMap
      | None \<Rightarrow> hostMap)"

text \<open>
  \<open>loadTabs\<close>, from the result of \<open>chrome.tabs.query\<close> to the argument of
  \<open>setGroups\<close> (lines 56-102). \<open>customName\<close> is left undefined.
\<close>

definition loadTabs :: "url_parser \<Rightarrow> ChromeTab list \<Rightarrow> GroupSuggestion list" where
  "loadTabs parseURL queried =
     map (\<lambda>(h, ts). \<lparr>host = h, tabs = ts, groupSelected = True, customName = None\<rparr>)
         (foldl (groupByHost parseURL) [] (filterTabs queried))"

section \<open>The external grouping facility\<close>

text \<open>
  Modelled from the spec: the browser's tab and tab-group service, which the program
  calls through \<open>chrome.tabs\<close> and \<open>chrome.tabGroups\<close> and which is not part of
  the repository. Section 6 of the specification gives its contract: tabs are listed
  with their current group, a group has a title, a colour and a collapsed attribute,
  \<open>createGroup\<close> takes a non-empty list of tabs and returns a new identifier with
  collapsed \<open>false\<close>, and every operation fails with NotFound when a tab or group it
  names does not exist. The state is the window's tab list in window order, the table
  of groups, and a journal of the mutating calls that succeeded.
\<close>

record TabGroup =
  group_title :: string
  color :: string
  collapsed :: bool

datatype call =
    Ungroup int
  | AddToGroup int "int list"
  | CreateGroup int "int list"
  | UpdateGroup int string string bool

record facility =
  window_tabs :: "ChromeTab list"
  tab_groups :: "(int \<times> TabGroup) list"
  journal :: "call list"

text \<open>
  Modelled from the spec: whether a tab is open, the group assignment that the
  grouping calls make, and an identifier that no group and no tab uses yet.
\<close>

definition has_tab :: "int \<Rightarrow> facility \<Rightarrow> bool" where
  "has_tab tabId fac = (Some tabId \<in> set (map ctab_id (window_tabs fac)))"

definition set_group :: "int list \<Rightarrow> int \<Rightarrow> ChromeTab list \<Rightarrow> ChromeTab list" where
  "set_group tabIds g ts =
     map (\<lambda>t. case ctab_id t of
                 None \<Rightarrow> t
               | Some i \<Rightarrow> if i \<in> set tabIds then t\<lparr>groupId := g\<rparr> else t) ts"

definition new_group_id :: "facility \<Rightarrow> int" where
  "new_group_id fac =
     1 + foldr max (map fst (tab_groups fac) @ map groupId (window_tabs fac)) 0"

text \<open>
  Modelled from the spec: \<open>chrome.tabs.get(tabId)\<close>, the lookup of a tab with its
  current group; NotFound when no tab of the window has the identifier.
\<close>

definition tabs_get :: "int \<Rightarrow> facility \<Rightarrow> error + ChromeTab" where
  "tabs_get tabId fac =
     (case find (\<lambda>t. ctab_id t = Some tabId) (window_tabs fac) of
        None \<Rightarrow> Inl NotFound
      | Some t \<Rightarrow> Inr t)"

text \<open>
  Modelled from the spec: \<open>chrome.tabs.ungroup(tabId)\<close>, \<open>ungroup(tabId)\<close> of the
  contract.
\<close>

definition tabs_ungroup :: "int \<Rightarrow> facility \<Rightarrow> error + facility" where
  "tabs_ungroup tabId fac =
     (if has_tab tabId fac
      then Inr (fac\<lparr>window_tabs := set_group [tabId] (- 1) (window_tabs fac),
                    journal := journal fac @ [Ungroup tabId]\<rparr>)
      else Inl NotFound)"

text \<open>
  Modelled from the spec: \<open>chrome.tabs.query({ groupId })\<close>, the tabs of the window
  that are in the group, in window order.
\<close>

definition tabs_query_group :: "int \<Rightarrow> facility \<Rightarrow> ChromeTab list" where
  "tabs_query_group g fac = filter (\<lambda>t. groupId t = g) (window_tabs fac)"

text \<open>
  Modelled from the spec: \<open>chrome.tabs.group({ groupId, tabIds })\<close>,
  \<open>addToGroup(groupId, tabIds)\<close> of the contract.
\<close>

definition tabs_group_into :: "int \<Rightarrow> int list \<Rightarrow> facility \<Rightarrow> error + facility" where
  "tabs_group_into g tabIds fac =
     (if tabIds = [] then Inl InvalidArgument
      else if map_of (tab_groups fac) g = None \<or> \<not> list_all (\<lambda>i. has_tab i fac) tabIds
      then Inl NotFound
      else Inr (fac\<lparr>window_tabs := set_group tabIds g (window_tabs fac),
                    journal := journal fac @ [AddToGroup g tabIds]\<rparr>))"

text \<open>
  Modelled from the spec: \<open>chrome.tabs.group({ tabIds })\<close>, \<open>createGroup(tabIds)\<close>
  of the contract, which returns the identifier of the new group. The new group has
  no title and is not collapsed; the program sets its colour in the next call.
\<close>

definition tabs_group_new :: "int list \<Rightarrow> facility \<Rightarrow> error + int \<times> facility" where
  "tabs_group_new tabIds fac =
     (if tabIds = [] then Inl InvalidArgument
      else if \<not> list_all (\<lambda>i. has_tab i fac) tabIds then Inl NotFound
      else let g = new_group_id fac in
           Inr (g, fac\<lparr>window_tabs := set_group tabIds g (window_tabs fac),
                        tab_groups := tab_groups fac
                          @ [(g, \<lparr>group_title = [], color = ''grey'', collapsed = False\<rparr>)],
                        journal := journal fac @ [CreateGroup g tabIds]\<rparr>))"

text \<open>
  Modelled from the spec: \<open>chrome.tabGroups.get(groupId)\<close>, \<open>getGroup(groupId)\<close> of
  the contract.
\<close>

definition tabGroups_get :: "int \<Rightarrow> facility \<Rightarrow> error + TabGroup" where
  "tabGroups_get g fac =
     (case map_of (tab_groups fac) g of
        None \<Rightarrow> Inl NotFound
      | Some groupInfo \<Rightarrow> Inr groupInfo)"

text \<open>
  Modelled from the spec: \<open>chrome.tabGroups.update(groupId, { title, color, collapsed })\<close>,
  \<open>updateGroup\<close> of the contract.
\<close>

definition tabGroups_update :: "int \<Rightarrow> string \<Rightarrow> string \<Rightarrow> bool \<Rightarrow> facility \<Rightarrow> error + facility" where
  "tabGroups_update g t c col fac =
     (if map_of (tab_groups fac) g = None then Inl NotFound
      else Inr (fac\<lparr>tab_groups :=
                      map (\<lambda>(g', info). if g' = g
                             then (g', \<lparr>group_title = t, color = c, collapsed = col\<rparr>)
                             else (g', info)) (tab_groups fac),
                    journal := journal fac @ [UpdateGroup g t c col]\<rparr>))"

section \<open>Reconciliation (App.tsx, lines 179-252)\<close>

definition selectedTabIds :: "GroupSuggestion \<Rightarrow> int list" where
  "selectedTabIds grp = map tab_id (filter selected (tabs grp))"

definition unselectedTabIds :: "GroupSuggestion \<Rightarrow> int list" where
  "unselectedTabIds grp = map tab_id (filter (\<lambda>tab. \<not> selected tab) (tabs grp))"

text \<open>
  The loop of lines 195-204 and its body. The \<open>try\<close> block holds the whole body,
  so a failure of \<open>chrome.tabs.get\<close> or of \<open>chrome.tabs.ungroup\<close> leaves the
  facility as it was and the loop goes on with the next identifier.
\<close>

definition ungroupOne :: "int \<Rightarrow> facility \<Rightarrow> facility" where
  "ungroupOne tabId fac =
     (case tabs_get tabId fac of
        Inl e \<Rightarrow> fac
      | Inr tab \<Rightarrow>
          if groupId tab \<noteq> - 1
          then (case tabs_ungroup tabId fac of Inl e \<Rightarrow> fac | Inr fac' \<Rightarrow> fac')
          else fac)"

fun ungroupUnselected :: "int list \<Rightarrow> facility \<Rightarrow> facility" where
  "ungroupUnselected [] fac = fac"
| "ungroupUnselected (tabId # rest) fac = ungroupUnselected rest (ungroupOne tabId fac)"

text \<open>
  The loop of lines 214-226, with the two variables it assigns. \<open>existingGroupId\<close> is
  assigned before \<open>chrome.tabGroups.get\<close> is called, so when that call throws the
  \<open>catch\<close> continues the loop with the identifier already stored; \<open>break\<close> leaves
  the loop after the first group that could be read.
\<close>

fun findExistingGroup :: "int list \<Rightarrow> int option \<times> bool \<Rightarrow> facility \<Rightarrow> int option \<times> bool" where
  "findExistingGroup [] (existingGroupId, wasCollapsed) fac = (existingGroupId, wasCollapsed)"
| "findExistingGroup (tabId # rest) (existingGroupId, wasCollapsed) fac =
     (case tabs_get tabId fac of
        Inl e \<Rightarrow> findExistingGroup rest (existingGroupId, wasCollapsed) fac
      | Inr tab \<Rightarrow>
          if groupId tab \<noteq> - 1 then
            (case tabGroups_get (groupId tab) fac of
               Inl e \<Rightarrow> findExistingGroup rest (Some (groupId tab), wasCollapsed) fac
             | Inr groupInfo \<Rightarrow> (Some (groupId tab), collapsed groupInfo))
          else findExistingGroup rest (existingGroupId, wasCollapsed) fac)"

text \<open>
  Lines 229-243: the identifiers of the tabs that \<open>chrome.tabs.query({ groupId })\<close>
  returns, the selected identifiers that are not among them, and the call that adds
  them or creates a group. The result is the target group and the new facility.
\<close>

definition currentTabIds :: "int \<Rightarrow> facility \<Rightarrow> int list" where
  "currentTabIds g fac =
     concat (map (\<lambda>t. case ctab_id t of None \<Rightarrow> [] | Some i \<Rightarrow> [i]) (tabs_query_group g fac))"

definition tabsToAdd :: "int \<Rightarrow> int list \<Rightarrow> facility \<Rightarrow> int list" where
  "tabsToAdd g selectedIds fac = filter (\<lambda>i. i \<notin> set (currentTabIds g fac)) selectedIds"

definition createOrExtend :: "int option \<Rightarrow> int list \<Rightarrow> facility \<Rightarrow> error + int \<times> facility" where
  "createOrExtend existingGroupId selectedIds fac =
     (case existingGroupId of
        Some g \<Rightarrow>
          if tabsToAdd g selectedIds fac \<noteq> [] then
            (case tabs_group_into g (tabsToAdd g selectedIds fac) fac of
               Inl e \<Rightarrow> Inl e
             | Inr fac' \<Rightarrow> Inr (g, fac'))
          else Inr (g, fac)
      | None \<Rightarrow> tabs_group_new selectedIds fac)"

text \<open>\<open>group.customName || group.host\<close> (line 247)\<close>

definition groupTitle :: "GroupSuggestion \<Rightarrow> string" where
  "groupTitle grp =
     (case customName grp of
        None \<Rightarrow> host grp
      | Some n \<Rightarrow> if n \<noteq> [] then n else host grp)"

text \<open>
  One round of the loop of line 182. The first component of the result is the error
  that leaves the loop, if any; the facility keeps what was done before the error.
\<close>

definition organizeGroup :: "GroupSuggestion \<Rightarrow> facility \<Rightarrow> error option \<times> facility" where
  "organizeGroup grp fac =
     (let fac1 = (if unselectedTabIds grp \<noteq> []
                  then ungroupUnselected (unselectedTabIds grp) fac else fac)
      in if selectedTabIds grp \<noteq> [] then
           (case findExistingGroup (selectedTabIds grp) (None, False) fac1 of
              (existingGroupId, wasCollapsed) \<Rightarrow>
                (case createOrExtend existingGroupId (selectedTabIds grp) fac1 of
                   Inl e \<Rightarrow> (Some e, fac1)
                 | Inr (g, fac2) \<Rightarrow>
                     (case tabGroups_update g (groupTitle grp) ''grey'' wasCollapsed fac2 of
                        Inl e \<Rightarrow> (Some e, fac2)
                      | Inr fac3 \<Rightarrow> (None, fac3))))
         else (None, fac1))"

fun organizeGroups :: "GroupSuggestion list \<Rightarrow> facility \<Rightarrow> error option \<times> facility" where
  "organizeGroups [] fac = (None, fac)"
| "organizeGroups (grp # rest) fac =
     (case organizeGroup grp fac of
        (Some e, fac') \<Rightarrow> (Some e, fac')
      | (None, fac') \<Rightarrow> organizeGroups rest fac')"

text \<open>
  The same loops with \<open>chrome.tabs.ungroup\<close> as a parameter, so that the call may
  also fail for a tab that \<open>chrome.tabs.get\<close> has found (the tab closed in
  between). A failed call leaves the facility as it was. With \<open>tabs_ungroup\<close> for
  the parameter these are the loops above.
\<close>

definition ungroupOneWith :: "(int \<Rightarrow> facility \<Rightarrow> error + facility) \<Rightarrow> int \<Rightarrow> facility
    \<Rightarrow> facility" where
  "ungroupOneWith ungroup tabId fac =
     (case tabs_get tabId fac of
        Inl e \<Rightarrow> fac
      | Inr tab \<Rightarrow>
          if groupId tab \<noteq> - 1
          then (case ungroup tabId fac of Inl e \<Rightarrow> fac | Inr fac' \<Rightarrow> fac')
          else fac)"

fun ungroupUnselectedWith :: "(int \<Rightarrow> facility \<Rightarrow> error + facility) \<Rightarrow> int list \<Rightarrow> facility
    \<Rightarrow> facility" where
  "ungroupUnselectedWith ungroup [] fac = fac"
| "ungroupUnselectedWith ungroup (tabId # rest) fac =
     ungroupUnselectedWith ungroup rest (ungroupOneWith ungroup tabId fac)"

definition organizeGroupWith :: "(int \<Rightarrow> facility \<Rightarrow> error + facility) \<Rightarrow> GroupSuggestion
    \<Rightarrow> facility \<Rightarrow> error option \<times> facility" where
  "organizeGroupWith ungroup grp fac =
     (let fac1 = (if unselectedTabIds grp \<noteq> []
                  then ungroupUnselectedWith ungroup (unselectedTabIds grp) fac else fac)
      in if selectedTabIds grp \<noteq> [] then
           (case findExistingGroup (selectedTabIds grp) (None, False) fac1 of
              (existingGroupId, wasCollapsed) \<Rightarrow>
                (case createOrExtend existingGroupId (selectedTabIds grp) fac1 of
                   Inl e \<Rightarrow> (Some e, fac1)
                 | Inr (g, fac2) \<Rightarrow>
                     (case tabGroups_update g (groupTitle grp) ''grey'' wasCollapsed fac2 of
                        Inl e \<Rightarrow> (Some e, fac2)
                      | Inr fac3 \<Rightarrow> (None, fac3))))
         else (None, fac1))"

fun organizeGroupsWith :: "(int \<Rightarrow> facility \<Rightarrow> error + facility) \<Rightarrow> GroupSuggestion list
    \<Rightarrow> facility \<Rightarrow> error option \<times> facility" where
  "organizeGroupsWith ungroup [] fac = (None, fac)"
| "organizeGroupsWith ungroup (grp # rest) fac =
     (case organizeGroupWith ungroup grp fac of
        (Some e, fac') \<Rightarrow> (Some e, fac')
      | (None, fac') \<Rightarrow> organizeGroupsWith ungroup rest fac')"

section \<open>Resync (App.tsx, lines 255-331)\<close>

text \<open>
  The body of the loop of lines 268-307. A grouped tab goes to \<open>groupMap\<close>, whose
  entry is created at the first tab of the group with the group's title, or with the
  tab's host name when the title is empty or the group cannot be read; an ungrouped
  tab goes to \<open>hostMap\<close> as in the fresh build.
\<close>

definition groupName :: "url_parser \<Rightarrow> facility \<Rightarrow> int \<Rightarrow> string \<Rightarrow> string" where
  "groupName parseURL fac g u =
     (case tabGroups_get g fac of
        Inr groupInfo \<Rightarrow>
          if group_title groupInfo \<noteq> [] then group_title groupInfo else getHostname parseURL u
      | Inl e \<Rightarrow> getHostname parseURL u)"

definition groupMap_push :: "int \<Rightarrow> TabSummary \<Rightarrow> (int \<times> string \<times> TabSummary list) list
    \<Rightarrow> (int \<times> string \<times> TabSummary list) list" where
  "groupMap_push g x m =
     map (\<lambda>(g', name, xs). if g' = g then (g', name, xs @ [x]) else (g', name, xs)) m"

definition resyncTab :: "url_parser \<Rightarrow> facility
    \<Rightarrow> (int \<times> string \<times> TabSummary list) list \<times> (string \<times> TabSummary list) list
    \<Rightarrow> ChromeTab
    \<Rightarrow> (int \<times> string \<times> TabSummary list) list \<times> (string \<times> TabSummary list) list" where
  "resyncTab parseURL fac maps tab =
     (case maps of (groupMap, hostMap) \<Rightarrow>
      (case tabSummary tab of
         None \<Rightarrow> (groupMap, hostMap)
       | Some summary \<Rightarrow>
           if groupId tab \<noteq> - 1 then
             let groupMap1 =
                   (if \<not> Map_has (groupId tab) groupMap
                    then Map_set (groupId tab)
                           (groupName parseURL fac (groupId tab) (url summary), []) groupMap
                    else groupMap)
             in (groupMap_push (groupId tab) summary groupMap1, hostMap)
           else (groupMap, hostMap_add parseURL summary hostMap)))"

definition resync :: "url_parser \<Rightarrow> facility \<Rightarrow> GroupSuggestion list" where
  "resync parseURL fac =
     (case foldl (resyncTab parseURL fac) ([], []) (filterTabs (window_tabs fac)) of
        (groupMap, hostMap) \<Rightarrow>
          map (\<lambda>(g, name, ts).
                 \<lparr>host = name, tabs = ts, groupSelected = True, customName = Some name\<rparr>) groupMap
          @ map (\<lambda>(h, ts).
                 \<lparr>host = h, tabs = ts, groupSelected = True, customName = None\<rparr>) hostMap)"

section \<open>\<open>handleOrganizeTabs\<close> (App.tsx, lines 179-337)\<close>

text \<open>
  The component state that the handler can change, and the handler as a step on that
  state and the facility. The third component of the result tells whether the
  \<open>catch\<close> of line 333 ran and the failure notice was shown. \<open>setGroups\<close> and
  \<open>setOrganized\<close> are called on the path without an error only.
\<close>

record AppState =
  groups :: "GroupSuggestion list"
  organized :: bool

definition handleOrganizeTabs :: "url_parser \<Rightarrow> AppState \<Rightarrow> facility
    \<Rightarrow> AppState \<times> facility \<times> bool" where
  "handleOrganizeTabs parseURL app fac =
     (case organizeGroups (groups app) fac of
        (Some e, fac') \<Rightarrow> (app, fac', True)
      | (None, fac') \<Rightarrow>
          (app\<lparr>groups := resync parseURL fac', organized := True\<rparr>, fac', False))"

section \<open>Notions used to state the properties\<close>

subsection \<open>The builders\<close>

text \<open>
  The key of a tab record, the records the fresh build makes from a queried tab list
  (in list order), the elements of a list in the order of their first occurrence, and
  the partition of a list by a key function in that order.
\<close>

definition key :: "url_parser \<Rightarrow> TabSummary \<Rightarrow> string" where
  "key parseURL tab = getHostname parseURL (url tab)"

definition summaries :: "ChromeTab list \<Rightarrow> TabSummary list" where
  "summaries queried = List.map_filter tabSummary (filterTabs queried)"

primrec first_seen :: "'a list \<Rightarrow> 'a list" where
  "first_seen [] = []"
| "first_seen (x # xs) = x # filter (\<lambda>y. y \<noteq> x) (first_seen xs)"

definition partition_by :: "('a \<Rightarrow> 'k) \<Rightarrow> 'a list \<Rightarrow> ('k \<times> 'a list) list" where
  "partition_by f xs = map (\<lambda>k. (k, filter (\<lambda>x. f x = k) xs)) (first_seen (map f xs))"

text \<open>
  The lists of a \<open>Map\<close> of the builders are good when none is empty and every
  record in them is selected.
\<close>

definition good_lists :: "('k \<times> TabSummary list) list \<Rightarrow> bool" where
  "good_lists m = (\<forall>e\<in>set m. snd e \<noteq> [] \<and> (\<forall>x\<in>set (snd e). selected x))"

subsection \<open>Reconciliation\<close>

text \<open>
  A suggestion without the deselected tabs that the facility cannot look up, and a
  browser tab taken out of its group.
\<close>

definition skip_missing :: "facility \<Rightarrow> GroupSuggestion \<Rightarrow> GroupSuggestion" where
  "skip_missing fac grp =
     grp\<lparr>tabs := filter (\<lambda>tab. selected tab \<or> has_tab (tab_id tab) fac) (tabs grp)\<rparr>"

definition ungrouped :: "ChromeTab \<Rightarrow> ChromeTab" where
  "ungrouped t = t\<lparr>groupId := - 1\<rparr>"

text \<open>
  Whether the lookup of a deselected tab or, for a grouped tab, the ungroup call fails
  in a facility.
\<close>

definition lookup_or_ungroup_fails :: "(int \<Rightarrow> facility \<Rightarrow> error + facility) \<Rightarrow> int \<Rightarrow> facility
    \<Rightarrow> bool" where
  "lookup_or_ungroup_fails ungroup i fac =
     (case tabs_get i fac of
        Inl e \<Rightarrow> True
      | Inr t \<Rightarrow> groupId t \<noteq> - 1 \<and> isl (ungroup i fac))"

text \<open>
  The external group that the lookup of a tab reports, if the tab exists and is
  grouped; whether that group (if any) can be read; whether the facility lists a tab
  as a member of a group; the first selected identifier that reports a group; the
  target group that step 4 of section 4.4 of the specification prescribes for a
  suggestion; and the calls that steps 3 to 5 prescribe for it: none without a
  selected tab, otherwise either the addition of the selected tabs that are not
  members of the adopted group (no call when there is none) and the update with the
  adopted group's collapsed attribute, or the creation of a group of the selected
  tabs and the update with collapsed \<open>false\<close>.
\<close>

definition memberOf :: "facility \<Rightarrow> int \<Rightarrow> int option" where
  "memberOf fac i =
     (case tabs_get i fac of
        Inl e \<Rightarrow> None
      | Inr t \<Rightarrow> if groupId t \<noteq> - 1 then Some (groupId t) else None)"



definition collapsed_of :: "facility \<Rightarrow> int \<Rightarrow> bool option" where
  "collapsed_of fac g = map_option collapsed (map_of (tab_groups fac) g)"




text \<open>
  A collapsed attribute \<open>c\<close> keeps the value \<open>before\<close> when it is that value, or
  \<open>False\<close> for a group that did not exist. A facility keeps the collapsed
  attributes of an earlier one when every group it has keeps its value, no group has
  vanished, and every update call journalled in between carries a kept value.
\<close>

definition kept_value :: "bool option \<Rightarrow> bool \<Rightarrow> bool" where
  "kept_value before c = (case before of Some c0 \<Rightarrow> c = c0 | None \<Rightarrow> \<not> c)"

definition collapsed_kept :: "facility \<Rightarrow> facility \<Rightarrow> bool" where
  "collapsed_kept fac fac' =
     ((\<forall>g. case collapsed_of fac' g of
             Some c \<Rightarrow> kept_value (collapsed_of fac g) c
           | None \<Rightarrow> collapsed_of fac g = None)
      \<and> (\<exists>calls. journal fac' = journal fac @ calls
             \<and> (\<forall>g t col c. UpdateGroup g t col c \<in> set calls
                    \<longrightarrow> kept_value (collapsed_of fac g) c)))"

subsection \<open>The states of the selection model\<close>

text \<open>
  The values that the component state \<open>groups\<close> takes: the initial empty array
  (line 37), the results of the two builders, and what \<open>toggleGroup\<close>,
  \<open>toggleTab\<close> and \<open>updateGroupName\<close> make of such a value.
\<close>

inductive model_state :: "GroupSuggestion list \<Rightarrow> bool" where
  initial: "model_state []"
| loaded: "model_state (loadTabs parseURL queried)"
| resynced: "model_state (resync parseURL fac)"
| toggledGroup: "model_state gs \<Longrightarrow> toggleGroup groupIndex gs = Inr gs' \<Longrightarrow> model_state gs'"
| toggledTab: "model_state gs \<Longrightarrow> toggleTab groupIndex tabIndex gs = Inr gs' \<Longrightarrow> model_state gs'"
| renamed: "model_state gs \<Longrightarrow> updateGroupName groupIndex newName gs = Inr gs' \<Longrightarrow> model_state gs'"

section \<open>Example states\<close>

text \<open>Example states used by the closed theorems below.\<close>

definition mixed_model :: "GroupSuggestion list" where
  "mixed_model =
     [\<lparr>host = ''a.com'',
       tabs = [\<lparr>tab_id = 1, title = ''one'', url = ''https://a.com/1'', selected = True\<rparr>,
               \<lparr>tab_id = 2, title = ''two'', url = ''https://a.com/2'', selected = False\<rparr>],
       groupSelected = False, customName = None\<rparr>]"

text \<open>
  A stand-in for the URL parser on the addresses of the examples, and the tab list of
  the example of the specification.
\<close>

definition example_parser :: url_parser where
  "example_parser = map_of
     [(''https://a.com/1'', ''a.com''), (''https://b.com/1'', ''b.com''),
      (''https://a.com/2'', ''a.com''),
      (''https://www.example.com/x'', ''www.example.com''),
      (''https://shop.example.com'', ''shop.example.com''),
      (''https://www.www.example.com'', ''www.www.example.com'')]"

definition spec_tabs :: "ChromeTab list" where
  "spec_tabs =
     [\<lparr>ctab_id = Some 1, ctab_url = Some ''https://a.com/1'', ctab_title = Some ''A1'', groupId = - 1\<rparr>,
      \<lparr>ctab_id = Some 2, ctab_url = Some ''https://b.com/1'', ctab_title = Some ''B1'', groupId = - 1\<rparr>,
      \<lparr>ctab_id = Some 3, ctab_url = Some ''https://a.com/2'', ctab_title = Some ''A2'', groupId = - 1\<rparr>]"

text \<open>
  The facility of the end-to-end example of the specification: tab 1 in the collapsed
  group 10 (\<open>a.com\<close>), tab 2 in the expanded group 20 (\<open>b.com\<close>), tab 3
  ungrouped at \<open>a.com\<close>.
\<close>

definition two_groups :: facility where
  "two_groups =
     \<lparr>window_tabs =
        [\<lparr>ctab_id = Some 1, ctab_url = Some ''https://a.com/1'', ctab_title = Some ''A1'',
          groupId = 10\<rparr>,
         \<lparr>ctab_id = Some 2, ctab_url = Some ''https://b.com/1'', ctab_title = Some ''B1'',
          groupId = 20\<rparr>,
         \<lparr>ctab_id = Some 3, ctab_url = Some ''https://a.com/2'', ctab_title = Some ''A2'',
          groupId = - 1\<rparr>],
      tab_groups =
        [(10, \<lparr>group_title = ''a.com'', color = ''blue'', collapsed = True\<rparr>),
         (20, \<lparr>group_title = ''b.com'', color = ''blue'', collapsed = False\<rparr>)],
      journal = []\<rparr>"

text \<open>
  Models for that facility: the fresh build; one whose only tab has been closed; one
  with tab 1 and a closed tab 9 deselected and tab 3 selected; and one with nothing
  but deselected tabs in its first group.
\<close>

definition fresh_model :: "GroupSuggestion list" where
  "fresh_model = loadTabs example_parser (window_tabs two_groups)"

definition stale_model :: "GroupSuggestion list" where
  "stale_model =
     [\<lparr>host = ''c.com'',
       tabs = [\<lparr>tab_id = 9, title = ''C'', url = ''https://c.com/'', selected = True\<rparr>],
       groupSelected = True, customName = None\<rparr>]"

definition partial_group :: GroupSuggestion where
  "partial_group =
     \<lparr>host = ''a.com'',
      tabs = [\<lparr>tab_id = 9, title = ''A9'', url = ''https://a.com/9'', selected = False\<rparr>,
              \<lparr>tab_id = 1, title = ''A1'', url = ''https://a.com/1'', selected = False\<rparr>,
              \<lparr>tab_id = 3, title = ''A2'', url = ''https://a.com/2'', selected = True\<rparr>],
      groupSelected = False, customName = Some ''mine''\<rparr>"

definition deselected_group :: GroupSuggestion where
  "deselected_group =
     \<lparr>host = ''a.com'',
      tabs = [\<lparr>tab_id = 9, title = ''A9'', url = ''https://a.com/9'', selected = False\<rparr>,
              \<lparr>tab_id = 1, title = ''A1'', url = ''https://a.com/1'', selected = False\<rparr>],
      groupSelected = False, customName = None\<rparr>"

definition b_group :: GroupSuggestion where
  "b_group =
     \<lparr>host = ''b.com'',
      tabs = [\<lparr>tab_id = 2, title = ''B1'', url = ''https://b.com/1'', selected = True\<rparr>],
      groupSelected = True, customName = None\<rparr>"


definition refusing_ungroup :: "int \<Rightarrow> facility \<Rightarrow> error + facility" where
  "refusing_ungroup tabId fac = (if tabId = 1 then Inl NotFound else tabs_ungroup tabId fac)"

section \<open>Properties of the selection model\<close>

lemma group_inv_toggled:
  "tabs g \<noteq> [] \<Longrightarrow>
   group_inv (g\<lparr>groupSelected := b, tabs := map (\<lambda>tab. tab\<lparr>selected := b\<rparr>) (tabs g)\<rparr>)"
  by (cases "tabs g") (auto simp: group_inv_def list_all_iff)

lemma set_list_update_cases:
  assumes "x \<in> set (xs[i := y])"
  shows "x = y \<or> (\<exists>j<length xs. j \<noteq> i \<and> x = xs ! j)"
proof -
  from assms obtain k where k: "k < length xs" "xs[i := y] ! k = x"
    by (auto simp: in_set_conv_nth)
  show ?thesis
  proof (cases "k = i")
    case True
    with k show ?thesis by simp
  next
    case False
    with k show ?thesis by auto
  qed
qed

text \<open>
  One step of the invariant: when the groups other than the addressed one satisfy it,
  every group does after \<open>toggleTab\<close>, and after \<open>toggleGroup\<close> when the toggled
  group holds at least one tab.
\<close>

lemma toggle_step_group_inv:
  assumes "groupIndex < length gs"
    and "\<forall>j<length gs. j \<noteq> groupIndex \<longrightarrow> group_inv (gs ! j)"
  shows "(tabs (gs ! groupIndex) \<noteq> [] \<longrightarrow>
            (\<exists>gs'. toggleGroup groupIndex gs = Inr gs' \<and> (\<forall>g\<in>set gs'. group_inv g)))
       \<and> (tabIndex < length (tabs (gs ! groupIndex)) \<longrightarrow>
            (\<exists>gs'. toggleTab groupIndex tabIndex gs = Inr gs' \<and> (\<forall>g\<in>set gs'. group_inv g)))"
proof (intro conjI impI)
  assume ne: "tabs (gs ! groupIndex) \<noteq> []"
  let ?flag = "\<not> groupSelected (gs ! groupIndex)"
  let ?g' = "(gs ! groupIndex)\<lparr>groupSelected := ?flag,
               tabs := map (\<lambda>tab. tab\<lparr>selected := ?flag\<rparr>) (tabs (gs ! groupIndex))\<rparr>"
  have eq: "toggleGroup groupIndex gs = Inr (gs[groupIndex := ?g'])"
    using assms(1) by (simp add: toggleGroup_def Let_def)
  have "group_inv ?g'" using ne by (rule group_inv_toggled)
  then have "\<forall>g\<in>set (gs[groupIndex := ?g']). group_inv g"
    using assms(2) by (auto dest!: set_list_update_cases)
  with eq show "\<exists>gs'. toggleGroup groupIndex gs = Inr gs' \<and> (\<forall>g\<in>set gs'. group_inv g)"
    by blast
next
  assume ti: "tabIndex < length (tabs (gs ! groupIndex))"
  let ?tabs' = "(tabs (gs ! groupIndex))[tabIndex :=
                  (tabs (gs ! groupIndex) ! tabIndex)\<lparr>selected :=
                     \<not> selected (tabs (gs ! groupIndex) ! tabIndex)\<rparr>]"
  let ?g' = "(gs ! groupIndex)\<lparr>tabs := ?tabs', groupSelected := list_all selected ?tabs'\<rparr>"
  have eq: "toggleTab groupIndex tabIndex gs = Inr (gs[groupIndex := ?g'])"
    using assms(1) ti by (simp add: toggleTab_def Let_def)
  have "group_inv ?g'" by (simp add: group_inv_def)
  then have "\<forall>g\<in>set (gs[groupIndex := ?g']). group_inv g"
    using assms(2) by (auto dest!: set_list_update_cases)
  with eq show "\<exists>gs'. toggleTab groupIndex tabIndex gs = Inr gs' \<and> (\<forall>g\<in>set gs'. group_inv g)"
    by blast
qed

text \<open>
  Claim C2, as amended. Applying \<open>toggleGroup\<close> twice to an in-range group succeeds
  and leaves every tab of the group with the flag \<open>groupSelected\<close> had before the
  first call; so the prior flags of the tabs are restored exactly when each of them
  was equal to the group flag.
\<close>

theorem toggleGroup_twice:
  assumes "groupIndex < length gs"
  shows "\<exists>gs1 gs2. toggleGroup groupIndex gs = Inr gs1 \<and> toggleGroup groupIndex gs1 = Inr gs2
           \<and> map selected (tabs (gs2 ! groupIndex))
               = map (\<lambda>_. groupSelected (gs ! groupIndex)) (tabs (gs ! groupIndex))
           \<and> (map selected (tabs (gs2 ! groupIndex)) = map selected (tabs (gs ! groupIndex))
                \<longleftrightarrow> (\<forall>t\<in>set (tabs (gs ! groupIndex)). selected t = groupSelected (gs ! groupIndex)))"
proof -
  let ?g = "gs ! groupIndex"
  let ?g1 = "?g\<lparr>groupSelected := \<not> groupSelected ?g,
                 tabs := map (\<lambda>tab. tab\<lparr>selected := \<not> groupSelected ?g\<rparr>) (tabs ?g)\<rparr>"
  let ?g2 = "?g1\<lparr>groupSelected := \<not> groupSelected ?g1,
                  tabs := map (\<lambda>tab. tab\<lparr>selected := \<not> groupSelected ?g1\<rparr>) (tabs ?g1)\<rparr>"
  have 1: "toggleGroup groupIndex gs = Inr (gs[groupIndex := ?g1])"
    using assms by (simp add: toggleGroup_def Let_def)
  have 2: "toggleGroup groupIndex (gs[groupIndex := ?g1]) = Inr (gs[groupIndex := ?g2])"
    using assms by (simp add: toggleGroup_def Let_def)
  have 3: "map selected (tabs ((gs[groupIndex := ?g2]) ! groupIndex))
             = map (\<lambda>_. groupSelected ?g) (tabs ?g)"
    using assms by (simp add: comp_def)
  have 4: "(map (\<lambda>_. groupSelected ?g) (tabs ?g) = map selected (tabs ?g))
             \<longleftrightarrow> (\<forall>t\<in>set (tabs ?g). selected t = groupSelected ?g)"
    by (auto simp: map_eq_conv)
  show ?thesis
  proof (intro exI conjI)
    show "toggleGroup groupIndex gs = Inr (gs[groupIndex := ?g1])" by (rule 1)
    show "toggleGroup groupIndex (gs[groupIndex := ?g1]) = Inr (gs[groupIndex := ?g2])"
      by (rule 2)
    show "map selected (tabs ((gs[groupIndex := ?g2]) ! groupIndex))
            = map (\<lambda>_. groupSelected ?g) (tabs ?g)" by (rule 3)
    show "(map selected (tabs ((gs[groupIndex := ?g2]) ! groupIndex)) = map selected (tabs ?g))
            \<longleftrightarrow> (\<forall>t\<in>set (tabs ?g). selected t = groupSelected ?g)"
      unfolding 3 by (rule 4)
  qed
qed

theorem toggleGroup_twice_witness:
  "\<exists>gs1 gs2. toggleGroup 0 mixed_model = Inr gs1 \<and> toggleGroup 0 gs1 = Inr gs2
     \<and> map selected (tabs (gs2 ! 0)) = [False, False]"
proof -
  have "0 < length mixed_model" by (simp add: mixed_model_def)
  from toggleGroup_twice [OF this] obtain gs1 gs2
    where a: "toggleGroup 0 mixed_model = Inr gs1" and b: "toggleGroup 0 gs1 = Inr gs2"
      and c: "map selected (tabs (gs2 ! 0))
                = map (\<lambda>_. groupSelected (mixed_model ! 0)) (tabs (mixed_model ! 0))"
    by blast
  have d: "map selected (tabs (gs2 ! 0)) = [False, False]"
    unfolding c by (simp add: mixed_model_def)
  show ?thesis
    by (rule exI [of _ gs1], rule exI [of _ gs2]) (simp add: a b d)
qed

text \<open>
  Claim C2 as stated fails on a group with one selected and one deselected tab: after
  two calls both tabs are deselected.
\<close>

theorem toggleGroup_twice_counterexample:
  "map selected (tabs (mixed_model ! 0)) = [True, False]
   \<and> map (map selected \<circ> tabs) (projr (toggleGroup2 0 mixed_model)) = [[False, False]]
   \<and> isl (toggleGroup2 0 mixed_model) = False"
  by (simp add: mixed_model_def toggleGroup2_def toggleGroup_def)

text \<open>
  Claim C10. On a model that satisfies the invariant, with both indices in range,
  two calls of \<open>toggleTab\<close> succeed and give back the model they started from.
\<close>

theorem toggleTab_twice_restores:
  assumes "\<forall>g\<in>set gs. group_inv g"
    and "groupIndex < length gs"
    and "tabIndex < length (tabs (gs ! groupIndex))"
  shows "\<exists>gs1. toggleTab groupIndex tabIndex gs = Inr gs1
           \<and> toggleTab groupIndex tabIndex gs1 = Inr gs"
proof -
  let ?g = "gs ! groupIndex"
  let ?t = "tabs ?g ! tabIndex"
  let ?tabs1 = "(tabs ?g)[tabIndex := ?t\<lparr>selected := \<not> selected ?t\<rparr>]"
  let ?g1 = "?g\<lparr>tabs := ?tabs1, groupSelected := list_all selected ?tabs1\<rparr>"
  have 1: "toggleTab groupIndex tabIndex gs = Inr (gs[groupIndex := ?g1])"
    using assms(2,3) by (simp add: toggleTab_def Let_def)
  have inv: "groupSelected ?g = list_all selected (tabs ?g)"
    using assms(1,2) by (simp add: group_inv_def)
  have restored: "?tabs1[tabIndex := (?tabs1 ! tabIndex)\<lparr>selected := \<not> selected (?tabs1 ! tabIndex)\<rparr>]
                = tabs ?g"
    using assms(3) by (simp add: list_update_same_conv)
  have "toggleTab groupIndex tabIndex (gs[groupIndex := ?g1])
          = Inr (gs[groupIndex := ?g\<lparr>tabs := tabs ?g, groupSelected := list_all selected (tabs ?g)\<rparr>])"
    using assms(2,3) restored by (simp add: toggleTab_def Let_def)
  also have "?g\<lparr>tabs := tabs ?g, groupSelected := list_all selected (tabs ?g)\<rparr> = ?g"
    using inv by simp
  also have "gs[groupIndex := ?g] = gs" by simp
  finally show ?thesis using 1 by blast
qed

theorem toggleTab_twice_restores_witness:
  "\<exists>gs1. toggleTab 0 1 mixed_model = Inr gs1 \<and> toggleTab 0 1 gs1 = Inr mixed_model"
  using toggleTab_twice_restores [of mixed_model 0 1]
  by (simp add: mixed_model_def group_inv_def)

section \<open>Properties of key extraction and of the fresh build\<close>

lemma startsWith_iff: "startsWith s p \<longleftrightarrow> (\<exists>r. s = p @ r)"
  unfolding startsWith_def
  by (metis append_eq_conv_conj)

text \<open>
  Claim C3. For every parser and every address \<open>getHostname\<close> returns a key: the
  sentinel \<open>unknown\<close> when the address does not parse, the host name without its
  first four characters when it starts with \<open>www.\<close> (so that one prefix is
  removed, not two), and the host name itself otherwise.
\<close>

theorem getHostname_key:
  "(parseURL address = None \<longrightarrow> getHostname parseURL address = ''unknown'')
   \<and> (\<forall>hostname. parseURL address = Some hostname \<longrightarrow>
         (\<forall>rest. hostname = ''www.'' @ rest \<longrightarrow> getHostname parseURL address = rest)
         \<and> ((\<nexists>rest. hostname = ''www.'' @ rest) \<longrightarrow> getHostname parseURL address = hostname))"
  by (auto simp: getHostname_def replace_www_def startsWith_iff)

theorem getHostname_key_witness:
  "getHostname example_parser ''https://www.example.com/x'' = ''example.com''
   \<and> getHostname example_parser ''https://shop.example.com'' = ''shop.example.com''
   \<and> getHostname example_parser ''https://www.www.example.com'' = ''www.example.com''
   \<and> getHostname example_parser ''http//broken'' = ''unknown''
   \<and> getHostname example_parser '''' = ''unknown''"
proof -
  have 1: "example_parser ''https://www.example.com/x'' = Some (''www.'' @ ''example.com'')"
    by (simp add: example_parser_def)
  have 2: "example_parser ''https://shop.example.com'' = Some ''shop.example.com''"
    by (simp add: example_parser_def)
  have n2: "\<nexists>rest. ''shop.example.com'' = ''www.'' @ rest" by simp
  have 3: "example_parser ''https://www.www.example.com'' = Some (''www.'' @ ''www.example.com'')"
    by (simp add: example_parser_def)
  have 4: "example_parser ''http//broken'' = None" by (simp add: example_parser_def)
  have 5: "example_parser '''' = None" by (simp add: example_parser_def)
  show ?thesis
    using getHostname_key [of example_parser "''https://www.example.com/x''"] 1
      getHostname_key [of example_parser "''https://shop.example.com''"] 2 n2
      getHostname_key [of example_parser "''https://www.www.example.com''"] 3
      getHostname_key [of example_parser "''http//broken''"] 4
      getHostname_key [of example_parser "''''"] 5
    by blast
qed

lemma first_seen_snoc:
  "first_seen (xs @ [a]) = first_seen xs @ (if a \<in> set xs then [] else [a])"
  by (induction xs) auto

lemma set_first_seen: "set (first_seen xs) = set xs"
  by (induction xs) auto

lemma distinct_first_seen: "distinct (first_seen xs)"
  by (induction xs) (auto simp: set_first_seen)

lemma keys_partition_by: "map fst (partition_by f xs) = first_seen (map f xs)"
  by (simp add: partition_by_def comp_def)

lemma hostMap_add_partition:
  "hostMap_add parseURL s (partition_by (key parseURL) xs) = partition_by (key parseURL) (xs @ [s])"
proof (cases "key parseURL s \<in> set (map (key parseURL) xs)")
  case True
  then have has: "Map_has (key parseURL s) (partition_by (key parseURL) xs)"
    by (simp add: Map_has_def keys_partition_by set_first_seen)
  show ?thesis
    using True has
    by (simp add: hostMap_add_def Let_def key_def [symmetric] Map_get_push_def
        partition_by_def first_seen_snoc)
next
  case False
  then have has: "\<not> Map_has (key parseURL s) (partition_by (key parseURL) xs)"
    by (simp add: Map_has_def keys_partition_by set_first_seen)
  have none: "filter (\<lambda>x. key parseURL x = key parseURL s) xs = []"
    using False by (force simp: filter_empty_conv image_iff)
  have other: "\<And>k. k \<in> set (first_seen (map (key parseURL) xs)) \<Longrightarrow> k \<noteq> key parseURL s"
    using False by (force simp: set_first_seen image_iff)
  show ?thesis
    using False has none other
    by (auto simp: hostMap_add_def Let_def key_def [symmetric] Map_get_push_def Map_set_def
        partition_by_def first_seen_snoc)
qed

lemma foldl_groupByHost:
  "foldl (groupByHost parseURL) (partition_by (key parseURL) xs) ts
     = partition_by (key parseURL) (xs @ List.map_filter tabSummary ts)"
proof (induction ts arbitrary: xs)
  case Nil
  show ?case by (simp add: List.map_filter_simps)
next
  case (Cons t ts)
  show ?case
  proof (cases "tabSummary t")
    case None
    then show ?thesis using Cons [of xs] by (simp add: groupByHost_def List.map_filter_simps)
  next
    case (Some s)
    then show ?thesis using Cons [of "xs @ [s]"]
      by (simp add: groupByHost_def List.map_filter_simps hostMap_add_partition)
  qed
qed

lemma loadTabs_partition:
  "loadTabs parseURL queried =
     map (\<lambda>(h, ts). \<lparr>host = h, tabs = ts, groupSelected = True, customName = None\<rparr>)
       (partition_by (key parseURL) (summaries queried))"
  using foldl_groupByHost [of parseURL "[]" "filterTabs queried"]
  by (simp add: loadTabs_def summaries_def partition_by_def)

lemma selected_summaries: "t \<in> set (summaries q) \<Longrightarrow> selected t"
  by (auto simp: summaries_def List.map_filter_def tabSummary_def split: option.splits if_splits)

lemma mset_summaries: "mset q' = mset q \<Longrightarrow> mset (summaries q') = mset (summaries q)"
  by (simp add: summaries_def filterTabs_def List.map_filter_def)

lemma in_loadTabs:
  "g \<in> set (loadTabs parseURL q) \<longleftrightarrow>
     (\<exists>k\<in>set (map (key parseURL) (summaries q)).
        g = \<lparr>host = k, tabs = filter (\<lambda>t. key parseURL t = k) (summaries q),
             groupSelected = True, customName = None\<rparr>)"
  by (auto simp: loadTabs_partition partition_by_def set_first_seen image_iff)

lemma loadTabs_image:
  "(\<lambda>g. (host g, mset (tabs g))) ` set (loadTabs parseURL q)
     = (\<lambda>k. (k, filter_mset (\<lambda>t. key parseURL t = k) (mset (summaries q))))
         ` key parseURL ` set_mset (mset (summaries q))"
  by (simp add: loadTabs_partition partition_by_def set_first_seen image_image)

text \<open>
  Claim C4. The fresh build lists the keys of the tab records in the order of their
  first occurrence, each once; the group of a key holds exactly the records with that
  key, in list order, and is not empty; every record lies in the group of its key;
  every tab and every group is selected; and permuting the queried list changes
  neither the keys nor the tabs that each key collects.
\<close>

theorem loadTabs_groups:
  "map host (loadTabs parseURL q) = first_seen (map (key parseURL) (summaries q))
   \<and> distinct (map host (loadTabs parseURL q))
   \<and> (\<forall>g\<in>set (loadTabs parseURL q).
         tabs g = filter (\<lambda>t. key parseURL t = host g) (summaries q)
         \<and> tabs g \<noteq> [] \<and> groupSelected g \<and> (\<forall>t\<in>set (tabs g). selected t))
   \<and> (\<forall>t\<in>set (summaries q).
         \<exists>g\<in>set (loadTabs parseURL q). host g = key parseURL t \<and> t \<in> set (tabs g))
   \<and> (mset q' = mset q \<longrightarrow>
         (\<lambda>g. (host g, mset (tabs g))) ` set (loadTabs parseURL q')
           = (\<lambda>g. (host g, mset (tabs g))) ` set (loadTabs parseURL q))"
proof (intro conjI ballI impI)
  show keys: "map host (loadTabs parseURL q) = first_seen (map (key parseURL) (summaries q))"
    by (simp add: loadTabs_partition partition_by_def comp_def)
  show "distinct (map host (loadTabs parseURL q))"
    unfolding keys by (rule distinct_first_seen)
next
  fix g assume "g \<in> set (loadTabs parseURL q)"
  then obtain k where k: "k \<in> set (map (key parseURL) (summaries q))"
    and g: "g = \<lparr>host = k, tabs = filter (\<lambda>t. key parseURL t = k) (summaries q),
                  groupSelected = True, customName = None\<rparr>"
    unfolding in_loadTabs by blast
  show "tabs g = filter (\<lambda>t. key parseURL t = host g) (summaries q)" by (simp add: g)
  show "tabs g \<noteq> []" using k by (auto simp: g filter_empty_conv)
  show "groupSelected g" by (simp add: g)
  fix t assume "t \<in> set (tabs g)"
  then show "selected t" by (auto simp: g intro: selected_summaries)
next
  fix t assume t: "t \<in> set (summaries q)"
  let ?g = "\<lparr>host = key parseURL t,
              tabs = filter (\<lambda>t'. key parseURL t' = key parseURL t) (summaries q),
              groupSelected = True, customName = None\<rparr>"
  have "?g \<in> set (loadTabs parseURL q)" unfolding in_loadTabs using t by auto
  moreover have "host ?g = key parseURL t \<and> t \<in> set (tabs ?g)" using t by simp
  ultimately show "\<exists>g\<in>set (loadTabs parseURL q). host g = key parseURL t \<and> t \<in> set (tabs g)"
    by blast
next
  assume "mset q' = mset q"
  then have "mset (summaries q') = mset (summaries q)" by (rule mset_summaries)
  then show "(\<lambda>g. (host g, mset (tabs g))) ` set (loadTabs parseURL q')
           = (\<lambda>g. (host g, mset (tabs g))) ` set (loadTabs parseURL q)"
    unfolding loadTabs_image by simp
qed

theorem loadTabs_groups_witness:
  "loadTabs example_parser spec_tabs =
     [\<lparr>host = ''a.com'',
       tabs = [\<lparr>tab_id = 1, title = ''A1'', url = ''https://a.com/1'', selected = True\<rparr>,
               \<lparr>tab_id = 3, title = ''A2'', url = ''https://a.com/2'', selected = True\<rparr>],
       groupSelected = True, customName = None\<rparr>,
      \<lparr>host = ''b.com'',
       tabs = [\<lparr>tab_id = 2, title = ''B1'', url = ''https://b.com/1'', selected = True\<rparr>],
       groupSelected = True, customName = None\<rparr>]
   \<and> map host (loadTabs example_parser spec_tabs)
       = first_seen (map (key example_parser) (summaries spec_tabs))
   \<and> distinct (map host (loadTabs example_parser spec_tabs))
   \<and> (\<lambda>g. (host g, mset (tabs g))) ` set (loadTabs example_parser (rev spec_tabs))
       = (\<lambda>g. (host g, mset (tabs g))) ` set (loadTabs example_parser spec_tabs)"
proof -
  have "loadTabs example_parser spec_tabs =
     [\<lparr>host = ''a.com'',
       tabs = [\<lparr>tab_id = 1, title = ''A1'', url = ''https://a.com/1'', selected = True\<rparr>,
               \<lparr>tab_id = 3, title = ''A2'', url = ''https://a.com/2'', selected = True\<rparr>],
       groupSelected = True, customName = None\<rparr>,
      \<lparr>host = ''b.com'',
       tabs = [\<lparr>tab_id = 2, title = ''B1'', url = ''https://b.com/1'', selected = True\<rparr>],
       groupSelected = True, customName = None\<rparr>]"
    by (simp add: loadTabs_def spec_tabs_def filterTabs_def startsWith_def groupByHost_def
        tabSummary_def hostMap_add_def Map_has_def Map_set_def Map_get_push_def
        getHostname_def replace_www_def example_parser_def)
  moreover have "mset (rev spec_tabs) = mset spec_tabs" by simp
  ultimately show ?thesis
    using loadTabs_groups [of example_parser spec_tabs "rev spec_tabs"] by blast
qed

section \<open>Properties of reconciliation and resync\<close>

subsection \<open>The operations of the facility\<close>

lemma ids_set_group [simp]: "map ctab_id (set_group ids g ts) = map ctab_id ts"
  by (induction ts) (auto simp: set_group_def split: option.splits)

lemma find_set_group:
  "find (\<lambda>t. ctab_id t = Some i) (set_group ids g ts)
     = map_option (\<lambda>t. if i \<in> set ids then t\<lparr>groupId := g\<rparr> else t)
         (find (\<lambda>t. ctab_id t = Some i) ts)"
  by (induction ts) (auto simp: set_group_def split: option.splits)

lemma find_id_None: "find (\<lambda>t. ctab_id t = Some i) ts = None \<longleftrightarrow> Some i \<notin> set (map ctab_id ts)"
  by (induction ts) auto

lemma find_Some_D: "find P ts = Some t \<Longrightarrow> t \<in> set ts \<and> P t"
  by (induction ts) (auto split: if_splits)

lemma tabs_get_Inl_iff: "isl (tabs_get i fac) \<longleftrightarrow> \<not> has_tab i fac"
proof (cases "find (\<lambda>t. ctab_id t = Some i) (window_tabs fac)")
  case None
  then show ?thesis using find_id_None [of i "window_tabs fac"]
    by (simp add: tabs_get_def has_tab_def)
next
  case (Some t)
  then show ?thesis using find_id_None [of i "window_tabs fac"]
    by (simp add: tabs_get_def has_tab_def)
qed

lemma tabs_get_Inr_D:
  assumes "tabs_get i fac = Inr t"
  shows "t \<in> set (window_tabs fac) \<and> ctab_id t = Some i \<and> has_tab i fac"
proof -
  from assms have f: "find (\<lambda>t. ctab_id t = Some i) (window_tabs fac) = Some t"
    by (simp add: tabs_get_def split: option.splits)
  from assms have "\<not> isl (tabs_get i fac)" by simp
  then have "has_tab i fac" by (simp add: tabs_get_Inl_iff)
  with find_Some_D [OF f] show ?thesis by simp
qed

lemma ungroupOne_cases:
  "ungroupOne i fac = fac \<and> (\<forall>t. tabs_get i fac = Inr t \<longrightarrow> groupId t = - 1)
   \<or> (\<exists>t. tabs_get i fac = Inr t \<and> groupId t \<noteq> - 1 \<and>
        ungroupOne i fac = fac\<lparr>window_tabs := set_group [i] (- 1) (window_tabs fac),
                               journal := journal fac @ [Ungroup i]\<rparr>)"
proof (cases "tabs_get i fac")
  case (Inl e)
  then show ?thesis by (simp add: ungroupOne_def)
next
  case (Inr t)
  then have "has_tab i fac" by (simp add: tabs_get_Inr_D)
  with Inr show ?thesis by (simp add: ungroupOne_def tabs_ungroup_def)
qed

lemma ungroupOne_groups [simp]: "tab_groups (ungroupOne i fac) = tab_groups fac"
  using ungroupOne_cases [of i fac] by auto

lemma ungroupOne_ids [simp]:
  "map ctab_id (window_tabs (ungroupOne i fac)) = map ctab_id (window_tabs fac)"
  using ungroupOne_cases [of i fac] by auto

lemma ungroupOne_has_tab [simp]: "has_tab j (ungroupOne i fac) = has_tab j fac"
  by (simp add: has_tab_def)

lemma ungroupOne_get:
  "tabs_get j (ungroupOne i fac)
     = (if j = i then map_sum (\<lambda>e. e) ungrouped (tabs_get j fac) else tabs_get j fac)"
proof -
  from ungroupOne_cases [of i fac] show ?thesis
  proof
    assume a: "ungroupOne i fac = fac \<and> (\<forall>t. tabs_get i fac = Inr t \<longrightarrow> groupId t = - 1)"
    show ?thesis
    proof (cases "tabs_get i fac")
      case (Inl e)
      with a show ?thesis by simp
    next
      case (Inr t)
      with a have "groupId t = - 1" by simp
      then have "ungrouped t = t" by (simp add: ungrouped_def)
      with a Inr show ?thesis by simp
    qed
  next
    assume "\<exists>t. tabs_get i fac = Inr t \<and> groupId t \<noteq> - 1 \<and>
        ungroupOne i fac = fac\<lparr>window_tabs := set_group [i] (- 1) (window_tabs fac),
                               journal := journal fac @ [Ungroup i]\<rparr>"
    then obtain t where t: "tabs_get i fac = Inr t"
      and u: "ungroupOne i fac = fac\<lparr>window_tabs := set_group [i] (- 1) (window_tabs fac),
                               journal := journal fac @ [Ungroup i]\<rparr>" by blast
    show ?thesis unfolding u
      by (auto simp: tabs_get_def find_set_group ungrouped_def split: option.splits)
  qed
qed

lemma ungroupUnselected_groups [simp]: "tab_groups (ungroupUnselected ids fac) = tab_groups fac"
  by (induction ids arbitrary: fac) simp_all

lemma ungroupUnselected_ids [simp]:
  "map ctab_id (window_tabs (ungroupUnselected ids fac)) = map ctab_id (window_tabs fac)"
  by (induction ids arbitrary: fac) simp_all

lemma ungroupUnselected_has_tab [simp]: "has_tab j (ungroupUnselected ids fac) = has_tab j fac"
  by (simp add: has_tab_def)

lemma ungrouped_idem: "map_sum (\<lambda>e. e) ungrouped (map_sum (\<lambda>e. e) ungrouped r) = map_sum (\<lambda>e. e) ungrouped r"
  by (cases r) (simp_all add: ungrouped_def)

lemma ungroupUnselected_get:
  "tabs_get j (ungroupUnselected ids fac)
     = (if j \<in> set ids then map_sum (\<lambda>e. e) ungrouped (tabs_get j fac) else tabs_get j fac)"
proof (induction ids arbitrary: fac)
  case Nil
  show ?case by simp
next
  case (Cons i ids)
  show ?case
    unfolding ungroupUnselected.simps Cons.IH ungroupOne_get
    by (simp add: ungrouped_idem)
qed

lemma ungroupUnselected_skip:
  assumes "\<And>i. has_tab i fac0 = has_tab i fac"
  shows "ungroupUnselected (filter (\<lambda>i. has_tab i fac0) ids) fac = ungroupUnselected ids fac"
  using assms
proof (induction ids arbitrary: fac)
  case Nil
  show ?case by simp
next
  case (Cons i ids)
  have same: "\<And>j. has_tab j fac0 = has_tab j (ungroupOne i fac)" using Cons.prems by simp
  show ?case
  proof (cases "has_tab i fac0")
    case True
    then show ?thesis
      unfolding ungroupUnselected.simps using Cons.IH [OF same] by simp
  next
    case False
    then have "isl (tabs_get i fac)" using Cons.prems by (simp add: tabs_get_Inl_iff)
    then have "ungroupOne i fac = fac" by (cases "tabs_get i fac") (simp_all add: ungroupOne_def)
    with False show ?thesis
      unfolding ungroupUnselected.simps using Cons.IH [OF Cons.prems] by simp
  qed
qed

lemma ungroup_phase:
  "(if ids \<noteq> [] then ungroupUnselected ids fac else fac) = ungroupUnselected ids fac"
  by (cases ids) simp_all

lemma tabs_group_into_Inr:
  "tabs_group_into g ids fac = Inr fac' \<Longrightarrow>
     fac' = fac\<lparr>window_tabs := set_group ids g (window_tabs fac),
                journal := journal fac @ [AddToGroup g ids]\<rparr>"
  by (simp add: tabs_group_into_def split: if_splits)

lemma tabs_group_new_Inr:
  "tabs_group_new ids fac = Inr (g, fac') \<Longrightarrow>
     g = new_group_id fac \<and>
     fac' = fac\<lparr>window_tabs := set_group ids g (window_tabs fac),
                tab_groups := tab_groups fac
                  @ [(g, \<lparr>group_title = [], color = ''grey'', collapsed = False\<rparr>)],
                journal := journal fac @ [CreateGroup g ids]\<rparr>"
  by (auto simp: tabs_group_new_def Let_def split: if_splits)

lemma tabGroups_update_Inr:
  "tabGroups_update g t c col fac = Inr fac' \<Longrightarrow>
     map_of (tab_groups fac) g \<noteq> None \<and>
     fac' = fac\<lparr>tab_groups :=
                  map (\<lambda>(g', info). if g' = g
                         then (g', \<lparr>group_title = t, color = c, collapsed = col\<rparr>)
                         else (g', info)) (tab_groups fac),
                journal := journal fac @ [UpdateGroup g t c col]\<rparr>"
  by (simp add: tabGroups_update_def split: if_splits)

lemma createOrExtend_ids:
  "createOrExtend e sel fac = Inr (g, fac') \<Longrightarrow>
     map ctab_id (window_tabs fac') = map ctab_id (window_tabs fac)"
  by (auto simp: createOrExtend_def split: option.splits if_splits sum.splits
      dest!: tabs_group_into_Inr tabs_group_new_Inr)

lemma tabGroups_update_ids:
  "tabGroups_update g t c col fac = Inr fac' \<Longrightarrow> window_tabs fac' = window_tabs fac"
  by (auto dest!: tabGroups_update_Inr)

lemma organizeGroup_alt:
  "organizeGroup grp fac =
     (if selectedTabIds grp \<noteq> [] then
        (case findExistingGroup (selectedTabIds grp) (None, False)
                (ungroupUnselected (unselectedTabIds grp) fac) of
           (existingGroupId, wasCollapsed) \<Rightarrow>
             (case createOrExtend existingGroupId (selectedTabIds grp)
                     (ungroupUnselected (unselectedTabIds grp) fac) of
                Inl e \<Rightarrow> (Some e, ungroupUnselected (unselectedTabIds grp) fac)
              | Inr (g, fac2) \<Rightarrow>
                  (case tabGroups_update g (groupTitle grp) ''grey'' wasCollapsed fac2 of
                     Inl e \<Rightarrow> (Some e, fac2)
                   | Inr fac3 \<Rightarrow> (None, fac3))))
      else (None, ungroupUnselected (unselectedTabIds grp) fac))"
  by (simp add: organizeGroup_def Let_def ungroup_phase)

lemma organizeGroup_ids:
  "map ctab_id (window_tabs (snd (organizeGroup grp fac))) = map ctab_id (window_tabs fac)"
  unfolding organizeGroup_alt
  by (auto split: prod.splits sum.splits dest!: createOrExtend_ids tabGroups_update_ids)

lemma organizeGroup_has_tab: "has_tab i (snd (organizeGroup grp fac)) = has_tab i fac"
  by (simp add: has_tab_def organizeGroup_ids)

lemma selected_skip_missing: "selectedTabIds (skip_missing fac0 grp) = selectedTabIds grp"
proof -
  have "filter selected (filter (\<lambda>tab. selected tab \<or> has_tab (tab_id tab) fac0) (tabs grp))
          = filter selected (tabs grp)"
    by (induction "tabs grp") (auto intro: filter_cong)
  then show ?thesis by (simp add: selectedTabIds_def skip_missing_def)
qed

lemma unselected_skip_missing:
  "unselectedTabIds (skip_missing fac0 grp) = filter (\<lambda>i. has_tab i fac0) (unselectedTabIds grp)"
  by (simp add: unselectedTabIds_def skip_missing_def filter_map comp_def)
     (rule arg_cong [where f = "map tab_id"], rule filter_cong, auto)

lemma organizeGroup_skip:
  assumes "\<And>i. has_tab i fac0 = has_tab i fac"
  shows "organizeGroup (skip_missing fac0 grp) fac = organizeGroup grp fac"
proof -
  have t: "groupTitle (skip_missing fac0 grp) = groupTitle grp"
    by (simp add: groupTitle_def skip_missing_def split: option.splits)
  show ?thesis
    unfolding organizeGroup_alt selected_skip_missing unselected_skip_missing t
      ungroupUnselected_skip [OF assms]
    by (rule refl)
qed

lemma organizeGroups_skip:
  assumes "\<And>i. has_tab i fac0 = has_tab i fac"
  shows "organizeGroups (map (skip_missing fac0) gs) fac = organizeGroups gs fac"
  using assms
proof (induction gs arbitrary: fac)
  case Nil
  show ?case by simp
next
  case (Cons g gs)
  note step = organizeGroup_skip [OF Cons.prems, of g]
  obtain e fac' where r: "organizeGroup g fac = (e, fac')" by (cases "organizeGroup g fac")
  have "\<And>i. has_tab i fac0 = has_tab i fac'"
    using organizeGroup_has_tab [of _ g fac] Cons.prems by (simp add: r)
  from Cons.IH [OF this] show ?case
    by (cases e) (simp_all add: step r)
qed

lemma ungroupOneWith_tabs_ungroup: "ungroupOneWith tabs_ungroup i fac = ungroupOne i fac"
  by (simp add: ungroupOneWith_def ungroupOne_def)

lemma ungroupUnselectedWith_tabs_ungroup:
  "ungroupUnselectedWith tabs_ungroup ids fac = ungroupUnselected ids fac"
  by (induction ids arbitrary: fac) (simp_all add: ungroupOneWith_tabs_ungroup)

lemma organizeGroupWith_tabs_ungroup:
  "organizeGroupWith tabs_ungroup grp fac = organizeGroup grp fac"
  by (simp add: organizeGroupWith_def organizeGroup_def ungroupUnselectedWith_tabs_ungroup)

lemma organizeGroupsWith_tabs_ungroup:
  "organizeGroupsWith tabs_ungroup gs fac = organizeGroups gs fac"
  by (induction gs arbitrary: fac)
     (auto simp: organizeGroupWith_tabs_ungroup split: prod.splits option.splits)

lemma ungroupOneWith_fails:
  "lookup_or_ungroup_fails ug i fac \<Longrightarrow> ungroupOneWith ug i fac = fac"
  by (auto simp: lookup_or_ungroup_fails_def ungroupOneWith_def split: sum.splits)

lemma ungroupUnselectedWith_append:
  "ungroupUnselectedWith ug (xs @ ys) fac
     = ungroupUnselectedWith ug ys (ungroupUnselectedWith ug xs fac)"
  by (induction xs arbitrary: fac) simp_all

lemma ungroupUnselectedWith_skip:
  assumes "lookup_or_ungroup_fails ug i (ungroupUnselectedWith ug pre fac)"
  shows "ungroupUnselectedWith ug (pre @ i # rest) fac = ungroupUnselectedWith ug (pre @ rest) fac"
  by (simp add: ungroupUnselectedWith_append ungroupOneWith_fails [OF assms])

lemma organizeGroupWith_cong:
  assumes "selectedTabIds grp' = selectedTabIds grp" and "groupTitle grp' = groupTitle grp"
    and "ungroupUnselectedWith ug (unselectedTabIds grp') fac
           = ungroupUnselectedWith ug (unselectedTabIds grp) fac"
  shows "organizeGroupWith ug grp' fac = organizeGroupWith ug grp fac"
proof -
  have phase: "(if ids \<noteq> [] then ungroupUnselectedWith ug ids fac else fac)
                 = ungroupUnselectedWith ug ids fac" for ids
    by (cases ids) simp_all
  have alt: "organizeGroupWith ug g fac =
     (if selectedTabIds g \<noteq> [] then
        (case findExistingGroup (selectedTabIds g) (None, False)
                (ungroupUnselectedWith ug (unselectedTabIds g) fac) of
           (existingGroupId, wasCollapsed) \<Rightarrow>
             (case createOrExtend existingGroupId (selectedTabIds g)
                     (ungroupUnselectedWith ug (unselectedTabIds g) fac) of
                Inl e \<Rightarrow> (Some e, ungroupUnselectedWith ug (unselectedTabIds g) fac)
              | Inr (t, fac2) \<Rightarrow>
                  (case tabGroups_update t (groupTitle g) ''grey'' wasCollapsed fac2 of
                     Inl e \<Rightarrow> (Some e, fac2)
                   | Inr fac3 \<Rightarrow> (None, fac3))))
      else (None, ungroupUnselectedWith ug (unselectedTabIds g) fac))" for g
    by (simp add: organizeGroupWith_def Let_def phase)
  show ?thesis
    by (simp only: alt assms)
qed

lemma organizeGroupsWith_append:
  "organizeGroupsWith ug (xs @ ys) fac =
     (case organizeGroupsWith ug xs fac of
        (Some e, fac') \<Rightarrow> (Some e, fac')
      | (None, fac') \<Rightarrow> organizeGroupsWith ug ys fac')"
  by (induction xs arbitrary: fac) (auto split: prod.splits option.splits)

lemma organizeGroupsWith_skip:
  assumes tabs: "tabs grp = tpre @ tab # trest" and unsel: "\<not> selected tab"
    and fails: "lookup_or_ungroup_fails ug (tab_id tab)
                  (ungroupUnselectedWith ug (unselectedTabIds (grp\<lparr>tabs := tpre\<rparr>))
                     (snd (organizeGroupsWith ug gpre fac)))"
  shows "organizeGroupsWith ug (gpre @ grp # grest) fac
           = organizeGroupsWith ug (gpre @ grp\<lparr>tabs := tpre @ trest\<rparr> # grest) fac"
proof -
  let ?grp' = "grp\<lparr>tabs := tpre @ trest\<rparr>"
  let ?f = "snd (organizeGroupsWith ug gpre fac)"
  let ?pre = "map tab_id (filter (\<lambda>t. \<not> selected t) tpre)"
  let ?rest = "map tab_id (filter (\<lambda>t. \<not> selected t) trest)"
  have sel: "selectedTabIds ?grp' = selectedTabIds grp"
    using unsel by (simp add: selectedTabIds_def tabs)
  have title: "groupTitle ?grp' = groupTitle grp"
    by (simp add: groupTitle_def split: option.splits)
  have u: "unselectedTabIds grp = ?pre @ tab_id tab # ?rest"
    using unsel by (simp add: unselectedTabIds_def tabs)
  have u': "unselectedTabIds ?grp' = ?pre @ ?rest" by (simp add: unselectedTabIds_def)
  have "lookup_or_ungroup_fails ug (tab_id tab) (ungroupUnselectedWith ug ?pre ?f)"
    using fails by (simp add: unselectedTabIds_def)
  then have "ungroupUnselectedWith ug (unselectedTabIds ?grp') ?f
               = ungroupUnselectedWith ug (unselectedTabIds grp) ?f"
    unfolding u u' by (rule ungroupUnselectedWith_skip [symmetric])
  with sel title have "organizeGroupWith ug ?grp' ?f = organizeGroupWith ug grp ?f"
    by (rule organizeGroupWith_cong)
  then show ?thesis
    by (cases "organizeGroupsWith ug gpre fac")
       (auto simp: organizeGroupsWith_append split: option.splits)
qed

text \<open>
  Claim C7. In the modelled facility, after the loop over the deselected tabs a tab
  of the list that can be looked up is reported without a group, a tab of the list
  whose lookup fails still fails, every other tab is as before, and the table of
  groups is unchanged; the run over all suggestions is the run over the suggestions
  without the deselected tabs whose lookup fails. With any behaviour of the ungroup
  call (which is the modelled one for \<open>tabs_ungroup\<close>): a deselected tab whose
  lookup fails, or whose ungroup call fails, when its turn comes changes nothing, so
  that the loop over the deselected tabs, and the run over all suggestions, give
  what they give without that tab: the same error or success and the same facility.
\<close>

theorem deselected_failures_skipped:
  "tabs_get j (ungroupUnselected ids fac)
     = (if j \<in> set ids
        then (case tabs_get j fac of Inl e \<Rightarrow> Inl e | Inr t \<Rightarrow> Inr (t\<lparr>groupId := - 1\<rparr>))
        else tabs_get j fac)
   \<and> tab_groups (ungroupUnselected ids fac) = tab_groups fac
   \<and> organizeGroups (map (skip_missing fac) gs) fac = organizeGroups gs fac
   \<and> organizeGroupsWith tabs_ungroup gs fac = organizeGroups gs fac
   \<and> (lookup_or_ungroup_fails ungroup i (ungroupUnselectedWith ungroup pre fac) \<longrightarrow>
         ungroupUnselectedWith ungroup (pre @ i # rest) fac
           = ungroupUnselectedWith ungroup (pre @ rest) fac)
   \<and> (tabs grp = tpre @ tab # trest \<and> \<not> selected tab
        \<and> lookup_or_ungroup_fails ungroup (tab_id tab)
             (ungroupUnselectedWith ungroup (unselectedTabIds (grp\<lparr>tabs := tpre\<rparr>))
                (snd (organizeGroupsWith ungroup gpre fac))) \<longrightarrow>
         organizeGroupsWith ungroup (gpre @ grp # grest) fac
           = organizeGroupsWith ungroup (gpre @ grp\<lparr>tabs := tpre @ trest\<rparr> # grest) fac)"
proof (intro conjI impI)
  show "tabs_get j (ungroupUnselected ids fac)
     = (if j \<in> set ids
        then (case tabs_get j fac of Inl e \<Rightarrow> Inl e | Inr t \<Rightarrow> Inr (t\<lparr>groupId := - 1\<rparr>))
        else tabs_get j fac)"
    unfolding ungroupUnselected_get
    by (cases "tabs_get j fac") (simp_all add: ungrouped_def)
  show "tab_groups (ungroupUnselected ids fac) = tab_groups fac" by simp
  show "organizeGroups (map (skip_missing fac) gs) fac = organizeGroups gs fac"
    by (rule organizeGroups_skip) simp
  show "organizeGroupsWith tabs_ungroup gs fac = organizeGroups gs fac"
    by (rule organizeGroupsWith_tabs_ungroup)
next
  assume "lookup_or_ungroup_fails ungroup i (ungroupUnselectedWith ungroup pre fac)"
  then show "ungroupUnselectedWith ungroup (pre @ i # rest) fac
           = ungroupUnselectedWith ungroup (pre @ rest) fac"
    by (rule ungroupUnselectedWith_skip)
next
  assume "tabs grp = tpre @ tab # trest \<and> \<not> selected tab
        \<and> lookup_or_ungroup_fails ungroup (tab_id tab)
             (ungroupUnselectedWith ungroup (unselectedTabIds (grp\<lparr>tabs := tpre\<rparr>))
                (snd (organizeGroupsWith ungroup gpre fac)))"
  then have t: "tabs grp = tpre @ tab # trest" and u: "\<not> selected tab"
    and f: "lookup_or_ungroup_fails ungroup (tab_id tab)
             (ungroupUnselectedWith ungroup (unselectedTabIds (grp\<lparr>tabs := tpre\<rparr>))
                (snd (organizeGroupsWith ungroup gpre fac)))"
    by simp_all
  show "organizeGroupsWith ungroup (gpre @ grp # grest) fac
           = organizeGroupsWith ungroup (gpre @ grp\<lparr>tabs := tpre @ trest\<rparr> # grest) fac"
    using t u f by (rule organizeGroupsWith_skip)
qed

theorem deselected_failures_skipped_witness:
  "tabs_get 9 two_groups = Inl NotFound
   \<and> tabs_get 9 (ungroupUnselected [9, 1] two_groups) = Inl NotFound
   \<and> tabs_get 1 (ungroupUnselected [9, 1] two_groups)
       = Inr \<lparr>ctab_id = Some 1, ctab_url = Some ''https://a.com/1'', ctab_title = Some ''A1'',
              groupId = - 1\<rparr>
   \<and> organizeGroups [deselected_group, b_group] two_groups
       = organizeGroups [skip_missing two_groups deselected_group,
                         skip_missing two_groups b_group] two_groups
   \<and> map tab_id (tabs (skip_missing two_groups deselected_group)) = [1]
   \<and> fst (organizeGroups [deselected_group, b_group] two_groups) = None
   \<and> journal (snd (organizeGroups [deselected_group, b_group] two_groups))
       = [Ungroup 1, UpdateGroup 20 ''b.com'' ''grey'' False]
   \<and> isl (refusing_ungroup 1 two_groups)
   \<and> lookup_or_ungroup_fails refusing_ungroup 1 two_groups
   \<and> ungroupUnselectedWith refusing_ungroup ([9] @ 1 # [2]) two_groups
       = ungroupUnselectedWith refusing_ungroup ([9] @ [2]) two_groups
   \<and> organizeGroupsWith refusing_ungroup ([] @ deselected_group # [b_group]) two_groups
       = organizeGroupsWith refusing_ungroup
           ([] @ deselected_group\<lparr>tabs := [hd (tabs deselected_group)] @ []\<rparr> # [b_group])
           two_groups
   \<and> fst (organizeGroupsWith refusing_ungroup [deselected_group, b_group] two_groups) = None
   \<and> journal (snd (organizeGroupsWith refusing_ungroup [deselected_group, b_group] two_groups))
       = [UpdateGroup 20 ''b.com'' ''grey'' False]"
proof -
  have a: "tabs_get 9 two_groups = Inl NotFound" by code_simp
  have b: "tabs_get 1 two_groups
       = Inr \<lparr>ctab_id = Some 1, ctab_url = Some ''https://a.com/1'', ctab_title = Some ''A1'',
              groupId = 10\<rparr>" by code_simp
  have c: "map tab_id (tabs (skip_missing two_groups deselected_group)) = [1]" by code_simp
  have d: "fst (organizeGroups [deselected_group, b_group] two_groups) = None" by code_simp
  have e: "journal (snd (organizeGroups [deselected_group, b_group] two_groups))
       = [Ungroup 1, UpdateGroup 20 ''b.com'' ''grey'' False]" by code_simp
  have f: "isl (refusing_ungroup 1 two_groups)" by code_simp
  have g: "lookup_or_ungroup_fails refusing_ungroup 1 two_groups" by code_simp
  have h: "lookup_or_ungroup_fails refusing_ungroup 1
             (ungroupUnselectedWith refusing_ungroup [9] two_groups)" by code_simp
  have k: "tabs deselected_group
             = [hd (tabs deselected_group)] @ hd (tl (tabs deselected_group)) # []
           \<and> \<not> selected (hd (tl (tabs deselected_group)))
           \<and> lookup_or_ungroup_fails refusing_ungroup (tab_id (hd (tl (tabs deselected_group))))
               (ungroupUnselectedWith refusing_ungroup
                  (unselectedTabIds (deselected_group\<lparr>tabs := [hd (tabs deselected_group)]\<rparr>))
                  (snd (organizeGroupsWith refusing_ungroup [] two_groups)))" by code_simp
  have m: "fst (organizeGroupsWith refusing_ungroup [deselected_group, b_group] two_groups) = None"
    by code_simp
  have n: "journal (snd (organizeGroupsWith refusing_ungroup [deselected_group, b_group] two_groups))
       = [UpdateGroup 20 ''b.com'' ''grey'' False]" by code_simp
  note t1 = deselected_failures_skipped
    [of 9 "[9, 1]" two_groups "[deselected_group, b_group]" refusing_ungroup 1 "[9]" "[2]"
        deselected_group "[hd (tabs deselected_group)]" "hd (tl (tabs deselected_group))"
        "[]" "[]" "[b_group]"]
  note t2 = deselected_failures_skipped
    [of 1 "[9, 1]" two_groups "[deselected_group, b_group]" refusing_ungroup 1 "[9]" "[2]"
        deselected_group "[hd (tabs deselected_group)]" "hd (tl (tabs deselected_group))"
        "[]" "[]" "[b_group]"]
  from t1 t2 a b c d e f g h k m n show ?thesis by simp
qed

subsection \<open>The collapsed attribute\<close>

lemma collapsed_kept_refl: "collapsed_kept fac fac"
  by (auto simp: collapsed_kept_def kept_value_def split: option.splits)

lemma kept_value_trans:
  assumes "kept_value b c'" and "case b' of Some c0 \<Rightarrow> kept_value a c0 | None \<Rightarrow> a = None"
    and "b = b'"
  shows "kept_value a c'"
  using assms by (auto simp: kept_value_def split: option.splits)

lemma collapsed_kept_trans:
  assumes "collapsed_kept a b" and "collapsed_kept b c"
  shows "collapsed_kept a c"
proof -
  from assms(1) have ab: "\<And>g. case collapsed_of b g of
             Some c \<Rightarrow> kept_value (collapsed_of a g) c
           | None \<Rightarrow> collapsed_of a g = None"
    by (simp add: collapsed_kept_def)
  from assms(2) have bc: "\<And>g. case collapsed_of c g of
             Some x \<Rightarrow> kept_value (collapsed_of b g) x
           | None \<Rightarrow> collapsed_of b g = None"
    by (simp add: collapsed_kept_def)
  from assms(1) obtain J1 where J1: "journal b = journal a @ J1"
    "\<And>g t col x. UpdateGroup g t col x \<in> set J1 \<Longrightarrow> kept_value (collapsed_of a g) x"
    unfolding collapsed_kept_def by blast
  from assms(2) obtain J2 where J2: "journal c = journal b @ J2"
    "\<And>g t col x. UpdateGroup g t col x \<in> set J2 \<Longrightarrow> kept_value (collapsed_of b g) x"
    unfolding collapsed_kept_def by blast
  have lift: "kept_value (collapsed_of a g) x" if "kept_value (collapsed_of b g) x" for g x
    using that ab [of g] by (rule kept_value_trans) simp
  have 1: "case collapsed_of c g of
             Some x \<Rightarrow> kept_value (collapsed_of a g) x
           | None \<Rightarrow> collapsed_of a g = None" for g
    using bc [of g] ab [of g] lift [of g]
    by (auto split: option.splits)
  have 2: "journal c = journal a @ (J1 @ J2)" by (simp add: J1 J2)
  have 3: "kept_value (collapsed_of a g) x" if "UpdateGroup g t col x \<in> set (J1 @ J2)" for g t col x
    using that J1(2) J2(2) lift by auto
  show ?thesis
    unfolding collapsed_kept_def using 1 2 3 by blast
qed

lemma collapsed_kept_same_groups:
  assumes "tab_groups fac' = tab_groups fac" and "journal fac' = journal fac @ calls"
    and "\<And>g t col c. UpdateGroup g t col c \<notin> set calls"
  shows "collapsed_kept fac fac'"
  unfolding collapsed_kept_def
proof (intro conjI allI exI [of _ calls])
  fix g
  show "case collapsed_of fac' g of
             Some c \<Rightarrow> kept_value (collapsed_of fac g) c
           | None \<Rightarrow> collapsed_of fac g = None"
    by (simp add: collapsed_of_def assms(1) kept_value_def split: option.splits)
qed (use assms in auto)

lemma ungroupOne_kept: "collapsed_kept fac (ungroupOne i fac)"
  using ungroupOne_cases [of i fac]
proof
  assume "ungroupOne i fac = fac \<and> (\<forall>t. tabs_get i fac = Inr t \<longrightarrow> groupId t = - 1)"
  then show ?thesis by (simp add: collapsed_kept_refl)
next
  assume "\<exists>t. tabs_get i fac = Inr t \<and> groupId t \<noteq> - 1 \<and>
        ungroupOne i fac = fac\<lparr>window_tabs := set_group [i] (- 1) (window_tabs fac),
                               journal := journal fac @ [Ungroup i]\<rparr>"
  then have u: "ungroupOne i fac = fac\<lparr>window_tabs := set_group [i] (- 1) (window_tabs fac),
                               journal := journal fac @ [Ungroup i]\<rparr>" by blast
  show ?thesis
    by (rule collapsed_kept_same_groups [where calls = "[Ungroup i]"]) (simp_all add: u)
qed

lemma ungroupUnselected_kept: "collapsed_kept fac (ungroupUnselected ids fac)"
proof (induction ids arbitrary: fac)
  case Nil
  show ?case by (simp add: collapsed_kept_refl)
next
  case (Cons i ids)
  show ?case
    unfolding ungroupUnselected.simps
    using ungroupOne_kept Cons.IH by (rule collapsed_kept_trans)
qed

lemma foldr_max_ge: "x \<in> set xs \<Longrightarrow> x \<le> foldr max xs (0::int)"
  by (induction xs) auto

lemma new_group_id_fresh: "map_of (tab_groups fac) (new_group_id fac) = None"
proof (rule ccontr)
  assume "map_of (tab_groups fac) (new_group_id fac) \<noteq> None"
  then have "new_group_id fac \<in> set (map fst (tab_groups fac))"
    by (simp add: map_of_eq_None_iff)
  then have "new_group_id fac \<le> foldr max (map fst (tab_groups fac) @ map groupId (window_tabs fac)) 0"
    by (intro foldr_max_ge) simp
  then show False by (simp add: new_group_id_def)
qed

lemma map_of_updated:
  "map_of (map (\<lambda>(g', info). if g' = g then (g', new) else (g', info)) xs) k
     = (if k = g then map_option (\<lambda>_. new) (map_of xs k) else map_of xs k)"
  by (induction xs) auto

lemma tabs_group_into_kept:
  "tabs_group_into g ids fac = Inr fac' \<Longrightarrow> collapsed_kept fac fac'"
  by (drule tabs_group_into_Inr)
     (rule collapsed_kept_same_groups [where calls = "[AddToGroup g ids]"], simp_all)

lemma tabs_group_new_kept:
  assumes "tabs_group_new ids fac = Inr (g, fac')"
  shows "collapsed_kept fac fac' \<and> collapsed_of fac' g = Some False"
proof -
  from tabs_group_new_Inr [OF assms] have g: "g = new_group_id fac"
    and f: "fac' = fac\<lparr>window_tabs := set_group ids g (window_tabs fac),
                tab_groups := tab_groups fac
                  @ [(g, \<lparr>group_title = [], color = ''grey'', collapsed = False\<rparr>)],
                journal := journal fac @ [CreateGroup g ids]\<rparr>" by simp_all
  have fresh: "map_of (tab_groups fac) g = None" unfolding g by (rule new_group_id_fresh)
  have c: "collapsed_of fac' k = (if k = g then Some False else collapsed_of fac k)" for k
    using fresh by (auto simp: collapsed_of_def f map_add_def split: option.splits)
  have "collapsed_kept fac fac'"
    unfolding collapsed_kept_def
  proof (intro conjI allI exI [of _ "[CreateGroup g ids]"])
    fix k
    have "collapsed_of fac g = None" by (simp add: collapsed_of_def fresh)
    then show "case collapsed_of fac' k of
             Some c \<Rightarrow> kept_value (collapsed_of fac k) c
           | None \<Rightarrow> collapsed_of fac k = None"
      by (auto simp: c kept_value_def split: option.splits)
  qed (simp_all add: f)
  then show ?thesis by (simp add: c)
qed

lemma tabGroups_update_kept:
  assumes "tabGroups_update g t c col fac = Inr fac'" and "collapsed_of fac g = Some col"
  shows "collapsed_kept fac fac'"
proof -
  from tabGroups_update_Inr [OF assms(1)]
  have f: "fac' = fac\<lparr>tab_groups :=
                  map (\<lambda>(g', info). if g' = g
                         then (g', \<lparr>group_title = t, color = c, collapsed = col\<rparr>)
                         else (g', info)) (tab_groups fac),
                journal := journal fac @ [UpdateGroup g t c col]\<rparr>" by simp
  have c: "collapsed_of fac' k = collapsed_of fac k" for k
    using assms(2) by (auto simp: collapsed_of_def f map_of_updated)
  show ?thesis
    unfolding collapsed_kept_def
  proof (intro conjI allI exI [of _ "[UpdateGroup g t c col]"])
    fix k
    show "case collapsed_of fac' k of
             Some c \<Rightarrow> kept_value (collapsed_of fac k) c
           | None \<Rightarrow> collapsed_of fac k = None"
      by (simp add: c kept_value_def split: option.splits)
  qed (use assms(2) in \<open>auto simp: f kept_value_def\<close>)
qed

lemma tabGroups_get_Inr: "tabGroups_get g fac = Inr info \<longleftrightarrow> map_of (tab_groups fac) g = Some info"
  by (simp add: tabGroups_get_def split: option.splits)

lemma tabGroups_get_Inl: "isl (tabGroups_get g fac) \<longleftrightarrow> map_of (tab_groups fac) g = None"
  by (simp add: tabGroups_get_def split: option.splits)

lemma findExistingGroup_collapsed:
  assumes "findExistingGroup ids (e, w) fac = (Some g, c)"
    and "\<forall>g'. e = Some g' \<longrightarrow> map_of (tab_groups fac) g' = None"
    and "map_of (tab_groups fac) g = Some info"
  shows "c = collapsed info"
  using assms
proof (induction ids arbitrary: e)
  case Nil
  then show ?case by simp
next
  case (Cons i ids)
  show ?case
  proof (cases "tabs_get i fac")
    case (Inl err)
    with Cons.prems Cons.IH [of e] show ?thesis by simp
  next
    case (Inr tab)
    show ?thesis
    proof (cases "groupId tab \<noteq> - 1")
      case False
      with Inr Cons.prems Cons.IH [of e] show ?thesis by simp
    next
      case True
      show ?thesis
      proof (cases "tabGroups_get (groupId tab) fac")
        case (Inl err)
        then have "map_of (tab_groups fac) (groupId tab) = None"
          using tabGroups_get_Inl [of "groupId tab" fac] by simp
        with Inl Inr True Cons.prems Cons.IH [of "Some (groupId tab)"] show ?thesis by simp
      next
        case r: (Inr groupInfo)
        then have "map_of (tab_groups fac) (groupId tab) = Some groupInfo"
          by (simp add: tabGroups_get_Inr)
        with r Inr True Cons.prems show ?thesis by auto
      qed
    qed
  qed
qed

lemma findExistingGroup_None:
  "findExistingGroup ids (e, w) fac = (None, c) \<Longrightarrow> c = w"
proof (induction ids arbitrary: e)
  case Nil
  then show ?case by simp
next
  case (Cons i ids)
  then show ?case
    by (auto split: sum.splits if_splits)
qed

lemma createOrExtend_kept:
  assumes "createOrExtend e sel fac = Inr (g, fac')"
  shows "collapsed_kept fac fac'
       \<and> (case e of Some g0 \<Rightarrow> g = g0 \<and> tab_groups fac' = tab_groups fac
                   | None \<Rightarrow> collapsed_of fac' g = Some False)"
proof (cases e)
  case None
  with assms have "tabs_group_new sel fac = Inr (g, fac')" by (simp add: createOrExtend_def)
  from tabs_group_new_kept [OF this] None show ?thesis by simp
next
  case (Some g0)
  show ?thesis
  proof (cases "tabsToAdd g0 sel fac \<noteq> []")
    case False
    with Some assms show ?thesis by (simp add: createOrExtend_def collapsed_kept_refl)
  next
    case True
    with Some assms have i: "tabs_group_into g0 (tabsToAdd g0 sel fac) fac = Inr fac'" and "g = g0"
      by (auto simp: createOrExtend_def split: sum.splits)
    from tabs_group_into_kept [OF i] tabs_group_into_Inr [OF i] Some \<open>g = g0\<close>
    show ?thesis by simp
  qed
qed

lemma organizeGroup_kept: "collapsed_kept fac (snd (organizeGroup grp fac))"
proof -
  let ?fac1 = "ungroupUnselected (unselectedTabIds grp) fac"
  have k1: "collapsed_kept fac ?fac1" by (rule ungroupUnselected_kept)
  show ?thesis
  proof (cases "selectedTabIds grp \<noteq> []")
    case False
    then show ?thesis using k1 by (simp add: organizeGroup_alt)
  next
    case True
    obtain e w where fe: "findExistingGroup (selectedTabIds grp) (None, False) ?fac1 = (e, w)"
      by (cases "findExistingGroup (selectedTabIds grp) (None, False) ?fac1")
    show ?thesis
    proof (cases "createOrExtend e (selectedTabIds grp) ?fac1")
      case (Inl err)
      with True fe k1 show ?thesis by (simp add: organizeGroup_alt)
    next
      case (Inr r)
      obtain g fac2 where r: "r = (g, fac2)" by (cases r)
      from createOrExtend_kept [OF Inr [unfolded r]]
      have k2: "collapsed_kept ?fac1 fac2"
        and tgt: "case e of Some g0 \<Rightarrow> g = g0 \<and> tab_groups fac2 = tab_groups ?fac1
                   | None \<Rightarrow> collapsed_of fac2 g = Some False" by simp_all
      have k12: "collapsed_kept fac fac2" using k1 k2 by (rule collapsed_kept_trans)
      show ?thesis
      proof (cases "tabGroups_update g (groupTitle grp) ''grey'' w fac2")
        case (Inl err)
        with True fe Inr r k12 show ?thesis by (simp add: organizeGroup_alt)
      next
        case u: (Inr fac3)
        from tabGroups_update_Inr [OF u] obtain info where
          info: "map_of (tab_groups fac2) g = Some info" by auto
        have "collapsed_of fac2 g = Some w"
        proof (cases e)
          case None
          with fe have "w = False" using findExistingGroup_None by blast
          with tgt None show ?thesis by simp
        next
          case (Some g0)
          with tgt have g: "g = g0" and same: "tab_groups fac2 = tab_groups ?fac1" by simp_all
          from info have "map_of (tab_groups ?fac1) g = Some info" by (simp add: same)
          with findExistingGroup_collapsed [OF fe [unfolded Some g [symmetric]]]
          have "w = collapsed info" by simp
          with info show ?thesis by (simp add: collapsed_of_def)
        qed
        with u have "collapsed_kept fac2 fac3" by (rule tabGroups_update_kept)
        with k12 have "collapsed_kept fac fac3" by (rule collapsed_kept_trans)
        with True fe Inr r u show ?thesis by (simp add: organizeGroup_alt)
      qed
    qed
  qed
qed

lemma organizeGroups_kept: "collapsed_kept fac (snd (organizeGroups gs fac))"
proof (induction gs arbitrary: fac)
  case Nil
  show ?case by (simp add: collapsed_kept_refl)
next
  case (Cons g gs)
  obtain e fac' where r: "organizeGroup g fac = (e, fac')" by (cases "organizeGroup g fac")
  have k: "collapsed_kept fac fac'" using organizeGroup_kept [of fac g] by (simp add: r)
  show ?case
  proof (cases e)
    case None
    with r k Cons.IH [of fac'] show ?thesis by (auto intro: collapsed_kept_trans)
  next
    case (Some err)
    with r k show ?thesis by simp
  qed
qed

text \<open>
  Claim C6. Whatever the model and the facility, after the loop over the suggestions
  (with or without an error) every group that existed before has the collapsed
  attribute it had, a group that did not exist before is not collapsed, and every
  update call made by the loop carries the collapsed attribute the group had before,
  or \<open>False\<close> for a group the loop created.
\<close>

theorem organize_keeps_collapsed:
  "(\<forall>g c. collapsed_of fac g = Some c \<longrightarrow>
           collapsed_of (snd (organizeGroups gs fac)) g = Some c)
   \<and> (\<forall>g. collapsed_of fac g = None \<longrightarrow>
           collapsed_of (snd (organizeGroups gs fac)) g \<noteq> Some True)
   \<and> (\<exists>calls. journal (snd (organizeGroups gs fac)) = journal fac @ calls
          \<and> (\<forall>g t col c. UpdateGroup g t col c \<in> set calls
                 \<longrightarrow> kept_value (collapsed_of fac g) c))"
proof -
  let ?fac' = "snd (organizeGroups gs fac)"
  have k: "collapsed_kept fac ?fac'" by (rule organizeGroups_kept)
  then have each: "case collapsed_of ?fac' g of
             Some c \<Rightarrow> kept_value (collapsed_of fac g) c
           | None \<Rightarrow> collapsed_of fac g = None" for g
    by (simp add: collapsed_kept_def)
  have 1: "collapsed_of ?fac' g = Some c" if "collapsed_of fac g = Some c" for g c
    using each [of g] that by (auto simp: kept_value_def split: option.splits)
  have 2: "collapsed_of ?fac' g \<noteq> Some True" if "collapsed_of fac g = None" for g
    using each [of g] that by (auto simp: kept_value_def split: option.splits)
  from k have 3: "\<exists>calls. journal ?fac' = journal fac @ calls
          \<and> (\<forall>g t col c. UpdateGroup g t col c \<in> set calls
                 \<longrightarrow> kept_value (collapsed_of fac g) c)"
    by (simp add: collapsed_kept_def)
  from 1 2 3 show ?thesis by blast
qed

theorem organize_keeps_collapsed_witness:
  "collapsed_of two_groups 10 = Some True
   \<and> collapsed_of (snd (organizeGroups fresh_model two_groups)) 10 = Some True
   \<and> collapsed_of two_groups 20 = Some False
   \<and> collapsed_of (snd (organizeGroups fresh_model two_groups)) 20 = Some False
   \<and> memberOf (snd (organizeGroups fresh_model two_groups)) 3 = Some 10
   \<and> collapsed_of two_groups 21 = None
   \<and> collapsed_of (snd (organizeGroups [partial_group] two_groups)) 21 = Some False"
proof -
  have a: "collapsed_of two_groups 10 = Some True" by code_simp
  have b: "collapsed_of two_groups 20 = Some False" by code_simp
  have c: "memberOf (snd (organizeGroups fresh_model two_groups)) 3 = Some 10" by code_simp
  have d: "collapsed_of two_groups 21 = None" by code_simp
  have e: "collapsed_of (snd (organizeGroups [partial_group] two_groups)) 21 \<noteq> None" by code_simp
  from organize_keeps_collapsed [of two_groups "[partial_group]"] d
  have "collapsed_of (snd (organizeGroups [partial_group] two_groups)) 21 \<noteq> Some True" by blast
  with e have f: "collapsed_of (snd (organizeGroups [partial_group] two_groups)) 21 = Some False"
    by (cases "collapsed_of (snd (organizeGroups [partial_group] two_groups)) 21") auto
  from organize_keeps_collapsed [of two_groups fresh_model] a b c d f
  show ?thesis by blast
qed

subsection \<open>The target group of a suggestion\<close>















subsection \<open>Resync and the handler\<close>

lemma tabSummary_selected: "tabSummary t = Some s \<Longrightarrow> selected s"
  by (auto simp: tabSummary_def split: option.splits if_splits)

lemma hostMap_add_good:
  "good_lists hm \<Longrightarrow> selected s \<Longrightarrow> good_lists (hostMap_add parseURL s hm)"
  by (auto simp: good_lists_def hostMap_add_def Let_def Map_set_def Map_get_push_def Map_has_def
      split: if_splits)

lemma groupMap_step_good:
  assumes "good_lists (map snd gm)" and "selected s"
  shows "good_lists (map snd (groupMap_push g s
           (if \<not> Map_has g gm then Map_set g (name, []) gm else gm)))"
  using assms
  by (auto simp: good_lists_def groupMap_push_def Map_set_def Map_has_def split: if_splits)

lemma resyncTab_good:
  assumes "good_lists (map snd (fst maps))" and "good_lists (snd maps)"
  shows "good_lists (map snd (fst (resyncTab parseURL fac maps t)))
       \<and> good_lists (snd (resyncTab parseURL fac maps t))"
proof (cases maps)
  case (Pair gm hm)
  show ?thesis
  proof (cases "tabSummary t")
    case None
    with Pair assms show ?thesis by (simp add: resyncTab_def)
  next
    case (Some s)
    then have sel: "selected s" by (rule tabSummary_selected)
    show ?thesis
    proof (cases "groupId t \<noteq> - 1")
      case True
      with Pair Some assms groupMap_step_good [OF _ sel, of gm "groupId t"]
      show ?thesis by (simp add: resyncTab_def Let_def)
    next
      case False
      with Pair Some assms hostMap_add_good [OF _ sel, of hm]
      show ?thesis by (simp add: resyncTab_def)
    qed
  qed
qed

lemma foldl_resyncTab_good:
  "good_lists (map snd (fst maps)) \<Longrightarrow> good_lists (snd maps) \<Longrightarrow>
   good_lists (map snd (fst (foldl (resyncTab parseURL fac) maps ts)))
   \<and> good_lists (snd (foldl (resyncTab parseURL fac) maps ts))"
proof (induction ts arbitrary: maps)
  case Nil
  then show ?case by simp
next
  case (Cons t ts)
  from resyncTab_good [OF Cons.prems, of parseURL fac t]
  show ?case by (simp add: Cons.IH)
qed

lemma resync_flags:
  assumes "g \<in> set (resync parseURL fac)"
  shows "groupSelected g \<and> tabs g \<noteq> [] \<and> (\<forall>t\<in>set (tabs g). selected t)"
proof -
  obtain gm hm where f: "foldl (resyncTab parseURL fac) ([], []) (filterTabs (window_tabs fac)) = (gm, hm)"
    by (cases "foldl (resyncTab parseURL fac) ([], []) (filterTabs (window_tabs fac))")
  have "good_lists (map snd (fst (foldl (resyncTab parseURL fac) ([], []) (filterTabs (window_tabs fac)))))
       \<and> good_lists (snd (foldl (resyncTab parseURL fac) ([], []) (filterTabs (window_tabs fac))))"
    by (rule foldl_resyncTab_good) (simp_all add: good_lists_def)
  then have good: "good_lists (map snd gm)" "good_lists hm" by (simp_all add: f)
  from assms f show ?thesis
    using good by (auto simp: resync_def good_lists_def)
qed

text \<open>
  Claim C9. Every group that the resync builds from any facility is selected, and so
  is every tab in it; when \<open>handleOrganizeTabs\<close> ends without the failure notice,
  its new model is the resync of the facility it leaves, whatever the model was
  before the call.
\<close>

theorem resync_all_selected:
  "(\<forall>g\<in>set (resync parseURL fac). groupSelected g \<and> (\<forall>t\<in>set (tabs g). selected t))
   \<and> (\<not> snd (snd (handleOrganizeTabs parseURL app fac)) \<longrightarrow>
        groups (fst (handleOrganizeTabs parseURL app fac))
          = resync parseURL (fst (snd (handleOrganizeTabs parseURL app fac)))
        \<and> (\<forall>g\<in>set (groups (fst (handleOrganizeTabs parseURL app fac))).
              groupSelected g \<and> (\<forall>t\<in>set (tabs g). selected t)))"
proof -
  have 1: "\<forall>g\<in>set (resync parseURL fac'). groupSelected g \<and> (\<forall>t\<in>set (tabs g). selected t)" for fac'
    using resync_flags by blast
  show ?thesis
  proof (cases "organizeGroups (groups app) fac")
    case (Pair e fac')
    show ?thesis
    proof (cases e)
      case None
      with Pair 1 show ?thesis by (simp add: handleOrganizeTabs_def)
    next
      case (Some err)
      with Pair 1 show ?thesis by (simp add: handleOrganizeTabs_def)
    qed
  qed
qed

theorem resync_all_selected_witness:
  "\<not> snd (snd (handleOrganizeTabs example_parser
                  \<lparr>groups = [partial_group, b_group], organized = False\<rparr> two_groups))
   \<and> list_all (\<lambda>g. groupSelected g \<and> list_all selected (tabs g))
        (groups (fst (handleOrganizeTabs example_parser
                        \<lparr>groups = [partial_group, b_group], organized = False\<rparr> two_groups)))
   \<and> map host (groups (fst (handleOrganizeTabs example_parser
                        \<lparr>groups = [partial_group, b_group], organized = False\<rparr> two_groups)))
       = [''b.com'', ''mine'', ''a.com'']"
proof -
  have a: "\<not> snd (snd (handleOrganizeTabs example_parser
                  \<lparr>groups = [partial_group, b_group], organized = False\<rparr> two_groups))"
    by code_simp
  have b: "map host (groups (fst (handleOrganizeTabs example_parser
                        \<lparr>groups = [partial_group, b_group], organized = False\<rparr> two_groups)))
       = [''b.com'', ''mine'', ''a.com'']" by code_simp
  from resync_all_selected
         [of example_parser two_groups "\<lparr>groups = [partial_group, b_group], organized = False\<rparr>"]
       a b
  show ?thesis by (simp add: list_all_iff)
qed

text \<open>
  Claim C8. The failure notice is shown exactly when the loop over the suggestions
  ends with an error. In that case the component state after the call is the state
  before it; otherwise the model is replaced by the resync of the facility that the
  loop leaves, and \<open>organized\<close> is set.
\<close>

theorem handleOrganizeTabs_failure:
  "(snd (snd (handleOrganizeTabs parseURL app fac)) \<longleftrightarrow> fst (organizeGroups (groups app) fac) \<noteq> None)
   \<and> (snd (snd (handleOrganizeTabs parseURL app fac)) \<longrightarrow>
        fst (handleOrganizeTabs parseURL app fac) = app)
   \<and> (\<not> snd (snd (handleOrganizeTabs parseURL app fac)) \<longrightarrow>
        fst (handleOrganizeTabs parseURL app fac)
          = app\<lparr>groups := resync parseURL (snd (organizeGroups (groups app) fac)),
                organized := True\<rparr>)"
  by (cases "organizeGroups (groups app) fac"; cases "fst (organizeGroups (groups app) fac)")
     (simp_all add: handleOrganizeTabs_def)

theorem handleOrganizeTabs_failure_witness:
  "snd (snd (handleOrganizeTabs example_parser \<lparr>groups = stale_model, organized = False\<rparr> two_groups))
   \<and> fst (handleOrganizeTabs example_parser \<lparr>groups = stale_model, organized = False\<rparr> two_groups)
       = \<lparr>groups = stale_model, organized = False\<rparr>
   \<and> \<not> snd (snd (handleOrganizeTabs example_parser
                     \<lparr>groups = fresh_model, organized = False\<rparr> two_groups))
   \<and> organized (fst (handleOrganizeTabs example_parser
                        \<lparr>groups = fresh_model, organized = False\<rparr> two_groups))"
proof -
  have a: "fst (organizeGroups (groups \<lparr>groups = stale_model, organized = False\<rparr>) two_groups)
             = Some NotFound" by code_simp
  have b: "fst (organizeGroups (groups \<lparr>groups = fresh_model, organized = False\<rparr>) two_groups)
             = None" by code_simp
  from handleOrganizeTabs_failure
         [of example_parser "\<lparr>groups = stale_model, organized = False\<rparr>" two_groups]
       handleOrganizeTabs_failure
         [of example_parser "\<lparr>groups = fresh_model, organized = False\<rparr>" two_groups]
       a b
  show ?thesis by simp
qed

section \<open>The invariant on the states of the selection model\<close>

lemma loadTabs_built:
  assumes "g \<in> set (loadTabs parseURL q)"
  shows "tabs g \<noteq> [] \<and> group_inv g"
proof -
  from assms obtain k where k: "k \<in> set (map (key parseURL) (summaries q))"
    and g: "g = \<lparr>host = k, tabs = filter (\<lambda>t. key parseURL t = k) (summaries q),
                  groupSelected = True, customName = None\<rparr>"
    unfolding in_loadTabs by blast
  have "tabs g \<noteq> []" using k by (auto simp: g filter_empty_conv)
  moreover have "group_inv g"
    by (auto simp: g group_inv_def list_all_iff intro: selected_summaries)
  ultimately show ?thesis by simp
qed

lemma resync_built:
  assumes "g \<in> set (resync parseURL fac)"
  shows "tabs g \<noteq> [] \<and> group_inv g"
  using resync_flags [OF assms] by (simp add: group_inv_def list_all_iff)

lemma toggleGroup_built:
  assumes "\<forall>g\<in>set gs. tabs g \<noteq> [] \<and> group_inv g" and "toggleGroup i gs = Inr gs'"
  shows "\<forall>g\<in>set gs'. tabs g \<noteq> [] \<and> group_inv g"
proof -
  from assms(2) have i: "i < length gs"
    by (simp add: toggleGroup_def split: if_splits)
  let ?g' = "(gs ! i)\<lparr>groupSelected := \<not> groupSelected (gs ! i),
               tabs := map (\<lambda>tab. tab\<lparr>selected := \<not> groupSelected (gs ! i)\<rparr>) (tabs (gs ! i))\<rparr>"
  from assms(2) i have gs': "gs' = gs[i := ?g']" by (simp add: toggleGroup_def Let_def)
  from assms(1) i have ne: "tabs (gs ! i) \<noteq> []" by simp
  then have "tabs ?g' \<noteq> [] \<and> group_inv ?g'" by (simp add: group_inv_toggled)
  with assms(1) show ?thesis
    unfolding gs' by (auto dest!: set_list_update_cases)
qed

lemma toggleTab_built:
  assumes "\<forall>g\<in>set gs. tabs g \<noteq> [] \<and> group_inv g" and "toggleTab i j gs = Inr gs'"
  shows "\<forall>g\<in>set gs'. tabs g \<noteq> [] \<and> group_inv g"
proof -
  from assms(2) have i: "i < length gs" and j: "j < length (tabs (gs ! i))"
    by (simp_all add: toggleTab_def Let_def split: if_splits)
  let ?tabs' = "(tabs (gs ! i))[j := (tabs (gs ! i) ! j)\<lparr>selected := \<not> selected (tabs (gs ! i) ! j)\<rparr>]"
  let ?g' = "(gs ! i)\<lparr>tabs := ?tabs', groupSelected := list_all selected ?tabs'\<rparr>"
  from assms(2) i j have gs': "gs' = gs[i := ?g']" by (simp add: toggleTab_def Let_def)
  from j have "?tabs' \<noteq> []" by auto
  then have "tabs ?g' \<noteq> [] \<and> group_inv ?g'" by (simp add: group_inv_def)
  with assms(1) show ?thesis
    unfolding gs' by (auto dest!: set_list_update_cases)
qed

lemma updateGroupName_built:
  assumes "\<forall>g\<in>set gs. tabs g \<noteq> [] \<and> group_inv g" and "updateGroupName i n gs = Inr gs'"
  shows "\<forall>g\<in>set gs'. tabs g \<noteq> [] \<and> group_inv g"
proof -
  from assms(2) have i: "i < length gs"
    by (simp add: updateGroupName_def split: if_splits)
  from assms(2) i have gs': "gs' = gs[i := (gs ! i)\<lparr>customName := Some n\<rparr>]"
    by (simp add: updateGroupName_def)
  from assms(1) i have "tabs ((gs ! i)\<lparr>customName := Some n\<rparr>) \<noteq> []
      \<and> group_inv ((gs ! i)\<lparr>customName := Some n\<rparr>)"
    by (simp add: group_inv_def)
  with assms(1) show ?thesis
    unfolding gs' by (auto dest!: set_list_update_cases)
qed

lemma model_state_built:
  "model_state gs \<Longrightarrow> \<forall>g\<in>set gs. tabs g \<noteq> [] \<and> group_inv g"
proof (induction rule: model_state.induct)
  case initial
  show ?case by simp
next
  case (loaded parseURL queried)
  show ?case using loadTabs_built by blast
next
  case (resynced parseURL fac)
  show ?case using resync_built by blast
next
  case (toggledGroup gs groupIndex gs')
  then show ?case using toggleGroup_built by blast
next
  case (toggledTab gs groupIndex tabIndex gs')
  then show ?case using toggleTab_built by blast
next
  case (renamed gs groupIndex newName gs')
  then show ?case using updateGroupName_built by blast
qed

text \<open>
  Claim C1. For every value that the component state takes and every index in range,
  \<open>toggleGroup\<close> and \<open>toggleTab\<close> succeed, and in the model they return the flag
  of every group is the conjunction of the flags of the group's tabs.
\<close>

theorem toggle_keeps_group_inv:
  assumes "model_state gs" and "groupIndex < length gs"
  shows "(\<exists>gs'. toggleGroup groupIndex gs = Inr gs' \<and> (\<forall>g\<in>set gs'. group_inv g))
       \<and> (tabIndex < length (tabs (gs ! groupIndex)) \<longrightarrow>
            (\<exists>gs'. toggleTab groupIndex tabIndex gs = Inr gs' \<and> (\<forall>g\<in>set gs'. group_inv g)))"
proof -
  from model_state_built [OF assms(1)]
  have built: "\<forall>g\<in>set gs. tabs g \<noteq> [] \<and> group_inv g" .
  with assms(2) have ne: "tabs (gs ! groupIndex) \<noteq> []" by simp
  from built have others: "\<forall>j<length gs. j \<noteq> groupIndex \<longrightarrow> group_inv (gs ! j)" by simp
  from toggle_step_group_inv [OF assms(2) others, of tabIndex] ne
  show ?thesis by blast
qed

theorem toggle_keeps_group_inv_witness:
  "model_state (loadTabs example_parser spec_tabs)
   \<and> (\<exists>gs'. toggleGroup 0 (loadTabs example_parser spec_tabs) = Inr gs' \<and> list_all group_inv gs')
   \<and> (\<exists>gs'. toggleTab 0 1 (loadTabs example_parser spec_tabs) = Inr gs' \<and> list_all group_inv gs')"
proof -
  have m: "model_state (loadTabs example_parser spec_tabs)" by (rule model_state.loaded)
  have l: "0 < length (loadTabs example_parser spec_tabs)" by code_simp
  have t: "1 < length (tabs (loadTabs example_parser spec_tabs ! 0))" by code_simp
  from toggle_keeps_group_inv [OF m l, of 1] t m show ?thesis
    by (simp add: list_all_iff)
qed

end
